theory Spec2Isabelle
  imports Main "HOL-Library.Word"
begin

unbundle bit_operations_syntax

section \<open>Machine types\<close>

text \<open>
  The embedding of \<^verbatim>\<open>gdb/tracepoint.c\<close> fixes the host the file was written for: a
  32-bit host on which \<^verbatim>\<open>int\<close>, \<^verbatim>\<open>long\<close>, \<^verbatim>\<open>unsigned long\<close>, \<^verbatim>\<open>bfd_signed_vma\<close>,
  \<^verbatim>\<open>bfd_vma\<close> and \<^verbatim>\<open>CORE_ADDR\<close> are all 32 bits wide (the file prints every one of them
  with \<^verbatim>\<open>%x\<close> and \<^verbatim>\<open>%d\<close>).  Arithmetic on words wraps; \<open>sint\<close> reads a word as a signed
  value and \<open>unat\<close>/\<open>uint\<close> as an unsigned one.
\<close>

type_synonym c_int = "32 word"
type_synonym c_long = "32 word"
type_synonym c_ulong = "32 word"
type_synonym bfd_signed_vma = "32 word"
type_synonym core_addr = "32 word"
type_synonym byte = "8 word"

section \<open>Collection lists\<close>

text \<open>
  \<^verbatim>\<open>struct memrange { int type; bfd_signed_vma start; bfd_signed_vma end; }\<close>.
  The field names carry a prefix because \<open>end\<close> is reserved.
\<close>

record memrange =
  mr_type :: c_int
  mr_start :: bfd_signed_vma
  mr_end :: bfd_signed_vma

text \<open>
  \<^verbatim>\<open>struct collection_list\<close>.  The array \<^verbatim>\<open>list\<close> together with its fill count
  \<^verbatim>\<open>next_memrange\<close> is the HOL list \<open>memranges\<close> (its length is \<^verbatim>\<open>next_memrange\<close>);
  \<^verbatim>\<open>regs_mask\<close> is a list of bytes, eight of them in every list the program builds.
  The list is unbounded: the capacity \<^verbatim>\<open>listsize\<close> and the reallocation that
  \<^verbatim>\<open>add_memrange\<close> does when the array is full manage storage only and are left out.
\<close>

record collection_list =
  regs_mask :: "byte list"
  memranges :: "memrange list"

subsection \<open>memrange_cmp\<close>

text \<open>
  The comparison handed to \<^verbatim>\<open>qsort\<close>.  \<^verbatim>\<open>type\<close> is an \<^verbatim>\<open>int\<close> and is compared signed.
  In class 0 the starts are cast to the unsigned \<^verbatim>\<open>bfd_vma\<close> before the comparison;
  in every other class they are compared as the signed \<^verbatim>\<open>bfd_signed_vma\<close> they are.
\<close>

definition memrange_cmp :: "memrange \<Rightarrow> memrange \<Rightarrow> int" where
  "memrange_cmp a b =
     (if sint (mr_type a) < sint (mr_type b) then - 1
      else if sint (mr_type b) < sint (mr_type a) then 1
      else if mr_type a = 0 then
        (if uint (mr_start a) < uint (mr_start b) then - 1
         else if uint (mr_start b) < uint (mr_start a) then 1
         else 0)
      else
        (if sint (mr_start a) < sint (mr_start b) then - 1
         else if sint (mr_start b) < sint (mr_start a) then 1
         else 0))"

subsection \<open>memrange_sortmerge\<close>

text \<open>
  The merging pass of \<^verbatim>\<open>memrange_sortmerge\<close>, on the array as the code walks it:
  \<open>a\<close> is the record being grown, \<open>b\<close> the record being read.  The difference
  \<^verbatim>\<open>list[b].start - list[a].end\<close> is computed in \<^verbatim>\<open>bfd_signed_vma\<close> (it wraps) and
  compared, signed, with \<^verbatim>\<open>MAX_REGISTER_VIRTUAL_SIZE\<close>.  That macro comes from the
  target configuration header, so it is the parameter \<open>mrvs\<close>.
\<close>

definition mergeable :: "int \<Rightarrow> memrange \<Rightarrow> memrange \<Rightarrow> bool" where
  "mergeable mrvs x y \<longleftrightarrow>
     mr_type x = mr_type y \<and> sint (mr_start y - mr_end x) \<le> mrvs"

function merge_loop :: "int \<Rightarrow> memrange list \<Rightarrow> nat \<Rightarrow> nat \<Rightarrow> memrange list \<times> nat" where
  "merge_loop mrvs xs a b =
     (if b < length xs then
        (if mergeable mrvs (xs ! a) (xs ! b)
         then merge_loop mrvs (xs[a := (xs ! a)\<lparr>mr_end := mr_end (xs ! b)\<rparr>]) a (b + 1)
         else merge_loop mrvs (if a + 1 \<noteq> b then xs[a + 1 := xs ! b] else xs) (a + 1) (b + 1))
      else (xs, a))"
  by pat_completeness auto
termination
  by (relation "measure (\<lambda>(mrvs, xs, a, b). length xs - b)") auto

declare merge_loop.simps [simp del]

text \<open>
  \<^verbatim>\<open>qsort\<close> belongs to the C library, which fixes neither its algorithm nor the order
  of records that compare equal: it is the parameter \<open>qsort\<close>.  After the pass the
  fill count is \<^verbatim>\<open>a + 1\<close>.
\<close>

definition memrange_sortmerge ::
    "int \<Rightarrow> ((memrange \<Rightarrow> memrange \<Rightarrow> int) \<Rightarrow> memrange list \<Rightarrow> memrange list) \<Rightarrow>
     collection_list \<Rightarrow> collection_list" where
  "memrange_sortmerge mrvs qsort c =
     (let sorted = qsort memrange_cmp (memranges c) in
      if 0 < length sorted then
        (case merge_loop mrvs sorted 0 1 of
           (xs, a) \<Rightarrow> c\<lparr>memranges := take (a + 1) xs\<rparr>)
      else c\<lparr>memranges := sorted\<rparr>)"

text \<open>An insertion sort driven by the comparison function: one admissible \<^verbatim>\<open>qsort\<close>.\<close>

fun cmp_insert :: "('a \<Rightarrow> 'a \<Rightarrow> int) \<Rightarrow> 'a \<Rightarrow> 'a list \<Rightarrow> 'a list" where
  "cmp_insert cmp x [] = [x]"
| "cmp_insert cmp x (y # ys) = (if cmp x y \<le> 0 then x # y # ys else y # cmp_insert cmp x ys)"

definition insertion_qsort :: "('a \<Rightarrow> 'a \<Rightarrow> int) \<Rightarrow> 'a list \<Rightarrow> 'a list" where
  "insertion_qsort cmp xs = foldr (cmp_insert cmp) xs []"

text \<open>Two neighbours that the merging pass would not join.\<close>

definition apart :: "int \<Rightarrow> memrange \<Rightarrow> memrange \<Rightarrow> bool" where
  "apart mrvs x y \<longleftrightarrow>
     mr_type x \<noteq> mr_type y \<or> mrvs < sint (mr_start y - mr_end x)"


subsection \<open>Errors\<close>

text \<open>
  Every call of \<^verbatim>\<open>error ()\<close> in the file leaves the running command; each message is a
  constructor.  The errors that the collaborators raise themselves (the expression
  parser, for one) are \<open>Collaborator_Error\<close>; \<open>Null_Dereference\<close> is the crash of a read
  through a null pointer, \<open>Buffer_Overrun\<close> a read behind the end of a string and
  \<open>Use_After_Free\<close> a read from a block that has been given to \<^verbatim>\<open>free\<close>.
\<close>

datatype error =
    Register_Too_Large c_ulong
  | Actions_Too_Complex c_int
  | Unsupported_Command
  | Unsupported_Tracepoints
  | Bogus_Reply string
  | Bogus_Response string
  | Frame_Not_Found
  | Outgoing_Packet_Error
  | Outgoing_Field_Error c_long
  | Trace_API_Error string
  | Target_Error_Code string
  | Malformed_R_Packet
  | Bad_Memrange_Argument
  | Bad_Register_Operand
  | Missing_Comma
  | Invalid_Size
  | Missing_Close_Parenthesis
  | Not_Debugging_Trace_Buffer
  | Already_At_Start
  | Not_Remote
  | Trace_Requires_Argument
  | Pass_Requires_Argument
  | Convenience_Not_Integral
  | No_Current_Tracepoint
  | Null_Dereference
  | Buffer_Overrun
  | Use_After_Free
  | Collaborator_Error

subsection \<open>add_register, add_memrange, clear_collection_list\<close>

definition sizeof_regs_mask :: nat where
  "sizeof_regs_mask = 8"

text \<open>
  \<^verbatim>\<open>if (regno > (8 * sizeof (collection->regs_mask))) error (...)\<close>, then
  \<^verbatim>\<open>collection->regs_mask [regno / 8] |= 1 << (regno % 8)\<close>.  The guard lets
  \<open>regno = 64\<close> through, and the store then goes to \<^verbatim>\<open>regs_mask[8]\<close>, one byte past
  the array: no byte of \<open>regs_mask\<close> changes, and what the store hits instead is the
  first byte of \<^verbatim>\<open>listsize\<close>, the field behind the array, which the record leaves out.
  That is the last branch.
\<close>

definition add_register :: "collection_list \<Rightarrow> c_ulong \<Rightarrow> error + collection_list" where
  "add_register collection regno =
     (if 8 * sizeof_regs_mask < unat regno then Inl (Register_Too_Large regno)
      else if unat regno div 8 < sizeof_regs_mask then
        Inr (collection\<lparr>regs_mask := (regs_mask collection)
               [unat regno div 8 :=
                  regs_mask collection ! (unat regno div 8) OR push_bit (unat regno mod 8) 1]\<rparr>)
      else Inr collection)"

text \<open>
  The record is stored first and the base register is added afterwards; \<open>type\<close>, an
  \<^verbatim>\<open>int\<close>, becomes the \<^verbatim>\<open>unsigned long\<close> argument of \<open>add_register\<close> unchanged in its
  bits.  \<open>base + len\<close> wraps.

  When the fill count reaches \<^verbatim>\<open>listsize\<close> (128 at first) the code calls
  \<^verbatim>\<open>xrealloc (memranges->list, memranges->listsize)\<close>, with a count of records where
  a count of bytes is asked for, and goes on to use the array as one that has grown.
\<close>

definition add_memrange ::
    "collection_list \<Rightarrow> c_int \<Rightarrow> bfd_signed_vma \<Rightarrow> c_ulong \<Rightarrow> error + collection_list" where
  "add_memrange collection type base len =
     (let stored = collection\<lparr>memranges := memranges collection @
                     [\<lparr>mr_type = type, mr_start = base, mr_end = base + len\<rparr>]\<rparr>
      in if type \<noteq> 0 then add_register stored type else Inr stored)"

definition clear_collection_list :: "collection_list \<Rightarrow> collection_list" where
  "clear_collection_list list =
     list\<lparr>memranges := [], regs_mask := replicate sizeof_regs_mask 0\<rparr>"

text \<open>Bit \<open>r\<close> of the bitmap, for a register number inside it.\<close>

definition reg_bit :: "collection_list \<Rightarrow> nat \<Rightarrow> bool" where
  "reg_bit c r \<longleftrightarrow>
     r div 8 < length (regs_mask c) \<and> bit (regs_mask c ! (r div 8)) (r mod 8)"

text \<open>
  The two scratch lists are static: they start zeroed.  \<open>reachable\<close> are the lists
  that calls which return lead to.
\<close>

definition initial_list :: collection_list where
  "initial_list = \<lparr>regs_mask = replicate sizeof_regs_mask 0, memranges = []\<rparr>"

inductive reachable ::
    "int \<Rightarrow> ((memrange \<Rightarrow> memrange \<Rightarrow> int) \<Rightarrow> memrange list \<Rightarrow> memrange list) \<Rightarrow>
     collection_list \<Rightarrow> bool"
  for mrvs qsort where
    start: "reachable mrvs qsort initial_list"
  | clear: "reachable mrvs qsort c \<Longrightarrow> reachable mrvs qsort (clear_collection_list c)"
  | register: "reachable mrvs qsort c \<Longrightarrow> add_register c r = Inr c' \<Longrightarrow> reachable mrvs qsort c'"
  | memrange: "reachable mrvs qsort c \<Longrightarrow> add_memrange c k base len = Inr c' \<Longrightarrow>
               reachable mrvs qsort c'"
  | sortmerge: "reachable mrvs qsort c \<Longrightarrow> reachable mrvs qsort (memrange_sortmerge mrvs qsort c)"

subsection \<open>Formatting numbers\<close>

text \<open>
  \<^verbatim>\<open>sprintf\<close> with \<^verbatim>\<open>%X\<close>, \<^verbatim>\<open>%x\<close> and \<^verbatim>\<open>%02X\<close>: the argument is read unsigned and
  written in hexadecimal with no prefix, upper or lower case, at least one digit
  (at least two for \<^verbatim>\<open>%02X\<close>).
\<close>

definition upper_digit :: "nat \<Rightarrow> char" where
  "upper_digit d = ''0123456789ABCDEF'' ! d"

definition lower_digit :: "nat \<Rightarrow> char" where
  "lower_digit d = ''0123456789abcdef'' ! d"

fun hex_of_nat :: "(nat \<Rightarrow> char) \<Rightarrow> nat \<Rightarrow> string" where
  "hex_of_nat digit n =
     (if n < 16 then [digit n] else hex_of_nat digit (n div 16) @ [digit (n mod 16)])"

declare hex_of_nat.simps [simp del]

definition fmt_X :: "32 word \<Rightarrow> string" where
  "fmt_X w = hex_of_nat upper_digit (unat w)"

definition fmt_x :: "32 word \<Rightarrow> string" where
  "fmt_x w = hex_of_nat lower_digit (unat w)"

definition fmt_02X :: "byte \<Rightarrow> string" where
  "fmt_02X b = [upper_digit (unat b div 16), upper_digit (unat b mod 16)]"

subsection \<open>stringify_collection_list\<close>

text \<open>
  \<^verbatim>\<open>for (i = sizeof (list->regs_mask) - 1; i > 0; i--) if (list->regs_mask[i] != 0) break;\<close>
  The function is called with the index the loop starts from and returns the index
  it stops at.
\<close>

function skip_zeroes :: "byte list \<Rightarrow> nat \<Rightarrow> nat" where
  "skip_zeroes regs i =
     (if 0 < i then (if regs ! i \<noteq> 0 then i else skip_zeroes regs (i - 1)) else i)"
  by pat_completeness auto
termination
  by (relation "measure (\<lambda>(regs, i). i)") auto

declare skip_zeroes.simps [simp del]

text \<open>\<^verbatim>\<open>for (; i >= 0; i--) { sprintf (end, "%02X", list->regs_mask[i]); end += 2; }\<close>\<close>

function emit_mask :: "byte list \<Rightarrow> nat \<Rightarrow> string" where
  "emit_mask regs i =
     fmt_02X (regs ! i) @ (if 0 < i then emit_mask regs (i - 1) else [])"
  by pat_completeness auto
termination
  by (relation "measure (\<lambda>(regs, i). i)") auto

declare emit_mask.simps [simp del]

text \<open>\<^verbatim>\<open>sprintf (end, "M%X,%X,%X", type, start, end - start)\<close> for every record in turn.\<close>

fun emit_memranges :: "memrange list \<Rightarrow> string" where
  "emit_memranges [] = []"
| "emit_memranges (m # ms) =
     (''M'' @ fmt_X (mr_type m) @ '','' @ fmt_X (mr_start m) @ '','' @
        fmt_X (mr_end m - mr_start m)) @ emit_memranges ms"

text \<open>
  The result is the null pointer (\<open>None\<close>) when nothing was written, and the buffer
  otherwise.  The function does not know the size of the buffer it is handed and writes
  a string of any length; \<^verbatim>\<open>encode_actions\<close>, which owns the buffers, is where a string
  too long for them is accounted for.
\<close>

definition stringify_collection_list :: "collection_list \<Rightarrow> string option" where
  "stringify_collection_list list =
     (let i = skip_zeroes (regs_mask list) (sizeof_regs_mask - 1);
          regs = (if regs_mask list ! i \<noteq> 0
                  then ''R'' @ emit_mask (regs_mask list) i else []);
          string = regs @ emit_memranges (memranges list)
      in if string = [] then None else Some string)"

text \<open>
  The same result in the words of the specification: nothing for an all-zero bitmap
  and an empty list; otherwise \<open>R\<close> and the bitmap bytes, highest index first, the zero
  bytes above the highest non-zero one dropped, when the bitmap is not all-zero; then
  one \<open>M\<close> record for every memrange.
\<close>

definition trimmed :: "byte list \<Rightarrow> byte list" where
  "trimmed regs = rev (dropWhile (\<lambda>b. b = 0) (rev regs))"

definition memrange_text :: "memrange \<Rightarrow> string" where
  "memrange_text m =
     ''M'' @ fmt_X (mr_type m) @ '','' @ fmt_X (mr_start m) @ '','' @
       fmt_X (mr_end m - mr_start m)"

definition stringify_spec :: "collection_list \<Rightarrow> string option" where
  "stringify_spec list =
     (if (\<forall>b \<in> set (regs_mask list). b = 0) \<and> memranges list = [] then None
      else Some
        ((if \<exists>b \<in> set (regs_mask list). b \<noteq> 0
          then ''R'' @ concat (map fmt_02X (rev (trimmed (regs_mask list)))) else []) @
         concat (map memrange_text (memranges list))))"

section \<open>The C library\<close>

text \<open>
  A C string is a \<open>string\<close> without its terminating NUL; a pointer into a string is the
  suffix it points at, and the null pointer is \<open>None\<close>.
\<close>

definition isspace :: "char \<Rightarrow> bool" where
  "isspace c \<longleftrightarrow>
     c = CHR '' '' \<or> c = CHR 0x09 \<or> c = CHR 0x0A \<or> c = CHR 0x0B \<or> c = CHR 0x0C \<or>
     c = CHR 0x0D"

definition tolower :: "char \<Rightarrow> char" where
  "tolower c =
     (case map_of (zip ''ABCDEFGHIJKLMNOPQRSTUVWXYZ'' ''abcdefghijklmnopqrstuvwxyz'') c of
        Some l \<Rightarrow> l
      | None \<Rightarrow> c)"

text \<open>
  \<^verbatim>\<open>strncasecmp\<close> is only ever compared with 0 in the file: the model answers 0 for
  equal and 1 for different.
\<close>

definition strncasecmp :: "string \<Rightarrow> string \<Rightarrow> nat \<Rightarrow> int" where
  "strncasecmp a b n = (if map tolower (take n a) = map tolower (take n b) then 0 else 1)"

definition strchr :: "string \<Rightarrow> char \<Rightarrow> string option" where
  "strchr s c =
     (case dropWhile (\<lambda>x. x \<noteq> c) s of [] \<Rightarrow> None | found \<Rightarrow> Some found)"

fun position :: "char \<Rightarrow> string \<Rightarrow> nat option" where
  "position c [] = None"
| "position c (x # xs) = (if c = x then Some 0 else map_option Suc (position c xs))"

definition digit_value :: "char \<Rightarrow> nat option" where
  "digit_value c = position (tolower c) ''0123456789abcdefghijklmnopqrstuvwxyz''"

fun strtol_digits :: "nat \<Rightarrow> string \<Rightarrow> nat \<Rightarrow> nat \<times> string" where
  "strtol_digits base [] acc = (acc, [])"
| "strtol_digits base (c # cs) acc =
     (case digit_value c of
        Some d \<Rightarrow> if d < base then strtol_digits base cs (acc * base + d) else (acc, c # cs)
      | None \<Rightarrow> (acc, c # cs))"

definition is_digit_of :: "nat \<Rightarrow> char \<Rightarrow> bool" where
  "is_digit_of base c \<longleftrightarrow> (case digit_value c of Some d \<Rightarrow> d < base | None \<Rightarrow> False)"

text \<open>
  The sign, the prefix and the digits that \<^verbatim>\<open>strtol\<close> and \<^verbatim>\<open>strtoul\<close> read: white
  space, an optional sign, \<^verbatim>\<open>0x\<close> in base 16 or 0 when a hexadecimal digit follows, a
  leading \<^verbatim>\<open>0\<close> for octal in base 0.  The answer is the sign, the magnitude and the
  text left, or \<open>None\<close> when there is no digit.
\<close>

definition number_start :: "string \<Rightarrow> nat \<Rightarrow> bool \<times> nat \<times> string" where
  "number_start nptr base =
     (let s = dropWhile isspace nptr;
          negative = (case s of c # _ \<Rightarrow> c = CHR ''-'' | [] \<Rightarrow> False);
          s = (case s of c # cs \<Rightarrow> if c = CHR ''-'' \<or> c = CHR ''+'' then cs else s | [] \<Rightarrow> s);
          prefixed = ((base = 0 \<or> base = 16) \<and>
                      (case s of z # x # h # _ \<Rightarrow>
                         z = CHR ''0'' \<and> tolower x = CHR ''x'' \<and> is_digit_of 16 h
                       | _ \<Rightarrow> False));
          b = (if base = 0
               then (if prefixed then 16
                     else if (case s of z # _ \<Rightarrow> z = CHR ''0'' | [] \<Rightarrow> False) then 8 else 10)
               else base)
      in (negative, b, if prefixed then drop 2 s else s))"

definition scan_number :: "string \<Rightarrow> nat \<Rightarrow> (bool \<times> nat \<times> string) option" where
  "scan_number nptr base =
     (case number_start nptr base of
        (negative, b, s) \<Rightarrow>
          (case strtol_digits b s 0 of
             (v, rest) \<Rightarrow> if length rest = length s then None else Some (negative, v, rest)))"

text \<open>
  \<^verbatim>\<open>strtol (nptr, &endptr, base)\<close> gives the value and \<open>endptr\<close>.  Without a digit the
  value is 0 and \<open>endptr\<close> is \<open>nptr\<close>; a value out of range is \<^verbatim>\<open>LONG_MAX\<close> or
  \<^verbatim>\<open>LONG_MIN\<close>.
\<close>

definition strtol :: "string \<Rightarrow> nat \<Rightarrow> c_long \<times> string" where
  "strtol nptr base =
     (case scan_number nptr base of
        None \<Rightarrow> (0, nptr)
      | Some (negative, v, rest) \<Rightarrow>
          (if negative then (if 2 ^ 31 < v then - (2 ^ 31) else - of_nat v)
           else (if 2 ^ 31 \<le> v then 2 ^ 31 - 1 else of_nat v),
           rest))"

text \<open>\<^verbatim>\<open>strtoul\<close>: out of range is \<^verbatim>\<open>ULONG_MAX\<close>; a minus sign negates the result.\<close>

definition strtoul :: "string \<Rightarrow> nat \<Rightarrow> c_ulong \<times> string" where
  "strtoul nptr base =
     (case scan_number nptr base of
        None \<Rightarrow> (0, nptr)
      | Some (negative, v, rest) \<Rightarrow>
          (if 2 ^ 32 \<le> v then - 1 else if negative then - of_nat v else of_nat v, rest))"

section \<open>Symbols, tracepoints and collaborators\<close>

text \<open>
  What the file uses of the symbol table: a symtab with its two names (either may be a
  null pointer), a symtab-and-line, a symbol with its class and the values the class
  gives a meaning to, and the two expression opcodes the file looks at.
\<close>

record symtab =
  filename :: "string option"
  dirname :: "string option"

record symtab_and_line =
  sal_symtab :: "symtab option"
  sal_line :: c_int
  sal_pc :: core_addr

datatype address_class =
    LOC_UNDEF | LOC_CONST | LOC_STATIC | LOC_REGISTER | LOC_ARG | LOC_REF_ARG | LOC_REGPARM
  | LOC_REGPARM_ADDR | LOC_LOCAL | LOC_TYPEDEF | LOC_LABEL | LOC_BLOCK | LOC_CONST_BYTES
  | LOC_LOCAL_ARG | LOC_BASEREG | LOC_BASEREG_ARG | LOC_UNRESOLVED | LOC_OPTIMIZED_OUT

record symbol =
  SYMBOL_NAME :: "string option"
  SYMBOL_CLASS :: address_class
  SYMBOL_VALUE :: c_long
  SYMBOL_VALUE_ADDRESS :: core_addr
  SYMBOL_BASEREG :: c_int
  TYPE_LENGTH :: c_ulong

datatype expression = OP_REGISTER c_long | OP_VAR_VALUE symbol | OP_OTHER

text \<open>A block: its symbols, and whether it is the body of a function.\<close>

record block =
  BLOCK_SYMS :: "symbol list"
  BLOCK_FUNCTION :: bool

text \<open>
  \<^verbatim>\<open>struct tracepoint\<close> (declared in \<^verbatim>\<open>tracepoint.h\<close>; these are the fields the file
  reads and writes).  The chain of action lines is the list of their texts.
\<close>

datatype enable = enabled | disabled

record tracepoint =
  number :: c_int
  address :: core_addr
  source_file :: "string option"
  line_number :: c_int
  tp_enabled :: enable
  step_count :: c_long
  pass_count :: c_long
  addr_string :: "string option"
  cond_string :: "string option"
  language :: nat
  input_radix :: c_int
  actions :: "string list"

text \<open>
  Values of convenience variables: an integer, a pointer to \<^verbatim>\<open>char\<close> (0 is the null
  pointer), an array of \<^verbatim>\<open>char\<close>, and any other value a user may have stored.
\<close>

datatype gdb_value = Int_Value c_long | Char_Pointer core_addr | Char_Array string | Other_Value

text \<open>
  The collaborators and the configuration macros, none of which the file defines.
  \<^item> \<open>parse_exp_1\<close> parses an expression at the start of a text in the block of a pc and
    answers the expression and the number of characters it has read;
  \<^item> \<open>blocks_for_pc\<close> is \<^verbatim>\<open>block_for_pc\<close> followed by its chain of superblocks,
    innermost first (empty when there is no block);
  \<^item> \<open>decode_line_1\<close>, with \<^verbatim>\<open>resolve_sal_pc\<close> applied, answers the resolved
    locations, the canonical strings when there are any, and the characters read;
  \<^item> \<open>current_frame_pc\<close> is \<^verbatim>\<open>get_current_frame ()->pc\<close> once the caches are flushed;
  \<^item> \<open>fresh_block\<close> is the content of the block \<^verbatim>\<open>xmalloc\<close> hands out, by offset;
  \<^item> \<open>query\<close> is the answer of the user to a question, \<open>fromhex\<close> the value of a
    hexadecimal digit, or the error it raises for another character.
\<close>

record collaborators =
  parse_exp_1 :: "string \<Rightarrow> core_addr \<Rightarrow> error + expression \<times> nat"
  blocks_for_pc :: "core_addr \<Rightarrow> block list"
  find_pc_line :: "core_addr \<Rightarrow> symtab_and_line"
  find_pc_function :: "core_addr \<Rightarrow> symbol option"
  parse_and_eval_address :: "string \<Rightarrow> error + core_addr"
  decode_line_1 ::
    "string \<Rightarrow> error + symtab_and_line list \<times> string option list option \<times> nat"
  read_pc :: core_addr
  current_frame_pc :: core_addr
  NUM_REGS :: nat
  FP_REGNUM :: c_ulong
  MAX_REGISTER_VIRTUAL_SIZE :: int
  REGISTER_RAW_SIZE :: "c_long \<Rightarrow> nat"
  qsort :: "(memrange \<Rightarrow> memrange \<Rightarrow> int) \<Rightarrow> memrange list \<Rightarrow> memrange list"
  target_is_remote :: bool
  current_language :: nat
  current_input_radix :: c_int
  fresh_block :: "nat \<Rightarrow> char"
  query :: "string \<Rightarrow> bool"
  fromhex :: "char \<Rightarrow> error + nat"

section \<open>The action validator\<close>

datatype actionline_type = BADLINE | GENERIC | END | STEPPING

subsection \<open>parse_and_eval_memrange\<close>

text \<open>
  The register of a relative memrange: when the text starts with \<open>$\<close> it must parse as
  a register and be followed by a comma; otherwise the type code is 0.
\<close>

definition memrange_typecode ::
    "collaborators \<Rightarrow> string \<Rightarrow> core_addr \<Rightarrow> error + c_long \<times> string" where
  "memrange_typecode cb arg addr =
     (if (case arg of c # _ \<Rightarrow> c = CHR ''$'' | [] \<Rightarrow> False) then
        (case parse_exp_1 cb arg addr of
           Inl e \<Rightarrow> Inl e
         | Inr (exp, n) \<Rightarrow>
             (case exp of
                OP_REGISTER r \<Rightarrow>
                  (case drop n arg of
                     c # rest \<Rightarrow> if c \<noteq> CHR '','' then Inl Missing_Comma else Inr (r, rest)
                   | [] \<Rightarrow> Inl Missing_Comma)
              | _ \<Rightarrow> Inl Bad_Register_Operand))
      else Inr (0, arg))"

text \<open>
  The branch of the function that is compiled (\<^verbatim>\<open>strtol\<close> with base 0 for the offset
  and the size).  The answer is the type code, the offset, the size and the rest of the
  text.
\<close>

definition parse_and_eval_memrange ::
    "collaborators \<Rightarrow> string \<Rightarrow> core_addr \<Rightarrow>
     error + c_long \<times> bfd_signed_vma \<times> c_long \<times> string" where
  "parse_and_eval_memrange cb arg addr =
     (case arg of
        d # p # arg1 \<Rightarrow>
          if d \<noteq> CHR ''$'' \<or> p \<noteq> CHR ''('' then Inl Bad_Memrange_Argument
          else
            (case memrange_typecode cb arg1 addr of
               Inl e \<Rightarrow> Inl e
             | Inr (typecode, arg2) \<Rightarrow>
                 (case strtol arg2 0 of
                    (offset, arg3) \<Rightarrow>
                      (case arg3 of
                         c # arg4 \<Rightarrow>
                           if c \<noteq> CHR '','' then Inl Missing_Comma
                           else
                             (case strtol arg4 0 of
                                (sz, arg5) \<Rightarrow>
                                  if sint sz \<le> 0 then Inl Invalid_Size
                                  else
                                    (case arg5 of
                                       c # arg6 \<Rightarrow>
                                         if c \<noteq> CHR '')'' then Inl Missing_Close_Parenthesis
                                         else Inr (typecode, offset, sz, arg6)
                                     | [] \<Rightarrow> Inl Missing_Close_Parenthesis))
                       | [] \<Rightarrow> Inl Missing_Comma)))
      | _ \<Rightarrow> Inl Bad_Memrange_Argument)"

subsection \<open>validate_actionline\<close>

text \<open>
  One item of a \<^verbatim>\<open>collect\<close> list, \<open>p\<close> pointing at its first character.  The answer
  is an error, or \<open>BADLINE\<close> returned at once, or the pointer the loop goes on with
  (\<open>None\<close> is the null pointer \<^verbatim>\<open>strchr\<close> answers when there is no comma).  A \<open>$\<close>
  that starts neither a pseudo-symbol nor a memrange leaves the pointer where it is.
\<close>

definition validate_item ::
    "collaborators \<Rightarrow> tracepoint \<Rightarrow> string \<Rightarrow> error + (actionline_type + string option)" where
  "validate_item cb t p =
     (if (case p of c # _ \<Rightarrow> c = CHR ''$'' | [] \<Rightarrow> False) then
        (if strncasecmp ''reg'' (drop 1 p) 3 = 0 \<or> strncasecmp ''arg'' (drop 1 p) 3 = 0 \<or>
            strncasecmp ''loc'' (drop 1 p) 3 = 0
         then Inr (Inr (strchr p (CHR '','')))
         else if (case drop 1 p of c # _ \<Rightarrow> c = CHR ''('' | [] \<Rightarrow> False) then
           (case parse_and_eval_memrange cb p (address t) of
              Inl e \<Rightarrow> Inl e
            | Inr (typecode, offset, sz, rest) \<Rightarrow> Inr (Inr (Some rest)))
         else Inr (Inr (Some p)))
      else
        (case parse_exp_1 cb p (address t) of
           Inl e \<Rightarrow> Inl e
         | Inr (exp, n) \<Rightarrow>
             (case exp of
                OP_REGISTER r \<Rightarrow> Inr (Inr (Some (drop n p)))
              | OP_VAR_VALUE symb \<Rightarrow>
                  if SYMBOL_CLASS symb = LOC_CONST then Inr (Inl BADLINE)
                  else if SYMBOL_CLASS symb = LOC_OPTIMIZED_OUT then Inr (Inl BADLINE)
                  else Inr (Inr (Some (drop n p)))
              | OP_OTHER \<Rightarrow> Inr (Inl BADLINE))))"

lemma strtol_digits_length: "length (snd (strtol_digits base s acc)) \<le> length s"
  by (induction s arbitrary: acc) (auto split: option.splits intro: le_SucI)

lemma number_start_length: "length (snd (snd (number_start s base))) \<le> length s"
proof -
  let ?s1 = "dropWhile isspace s"
  let ?s2 = "case ?s1 of c # cs \<Rightarrow> if c = CHR ''-'' \<or> c = CHR ''+'' then cs else ?s1 | [] \<Rightarrow> ?s1"
  have "length ?s2 \<le> length ?s1" by (auto split: list.splits)
  with length_dropWhile_le [of isspace s] have a: "length ?s2 \<le> length s" by simp
  then have b: "length ?s2 - 2 \<le> length s" by simp
  from a b show ?thesis by (simp add: number_start_def Let_def del: One_nat_def)
qed

lemma scan_number_length:
  assumes "scan_number s base = Some (negative, v, rest)"
  shows "length rest \<le> length s"
proof -
  obtain n b u where start: "number_start s base = (n, b, u)" by (cases "number_start s base")
  with assms have "snd (strtol_digits b u 0) = rest"
    by (auto simp add: scan_number_def split: prod.splits if_splits)
  with strtol_digits_length [of b u 0] have "length rest \<le> length u" by simp
  with number_start_length [of s base] start show ?thesis by simp
qed

lemma strtol_length: "length (snd (strtol s base)) \<le> length s"
  using scan_number_length [of s base]
  by (auto simp add: strtol_def split: option.splits)

lemma strchr_length:
  assumes "strchr s c = Some r"
  shows "length r \<le> length s"
proof -
  from assms have "r = dropWhile (\<lambda>x. x \<noteq> c) s"
    by (simp add: strchr_def split: list.splits)
  with length_dropWhile_le [of "\<lambda>x. x \<noteq> c" s] show ?thesis by simp
qed

lemma memrange_typecode_length:
  "memrange_typecode cb arg addr = Inr (r, rest) \<Longrightarrow> length rest \<le> length arg"
  by (auto simp add: memrange_typecode_def split: if_splits sum.splits prod.splits
      expression.splits list.splits dest!: arg_cong [where f = length])

lemma parse_and_eval_memrange_length:
  assumes "parse_and_eval_memrange cb arg addr = Inr (typecode, offset, sz, rest)"
  shows "length rest \<le> length arg"
proof -
  from assms obtain d p arg1 arg2 arg4 c where arg: "arg = d # p # arg1"
    and a2: "memrange_typecode cb arg1 addr = Inr (typecode, arg2)"
    and a4: "snd (strtol arg2 0) = c # arg4"
    and a6: "snd (strtol arg4 0) = CHR '')'' # rest"
    by (auto simp add: parse_and_eval_memrange_def
        split: list.splits if_splits sum.splits prod.splits)
  from memrange_typecode_length [OF a2] have "length arg2 \<le> length arg1" .
  moreover from strtol_length [of arg2 0] a4 have "length arg4 \<le> length arg2" by simp
  moreover from strtol_length [of arg4 0] a6 have "length rest \<le> length arg4" by simp
  ultimately show ?thesis using arg by simp
qed

lemma validate_item_length:
  "validate_item cb t p = Inr (Inr (Some rest)) \<Longrightarrow> length rest \<le> length p"
  by (auto simp add: validate_item_def
      split: if_splits sum.splits prod.splits expression.splits
      dest: strchr_length parse_and_eval_memrange_length)

text \<open>
  The \<^verbatim>\<open>do ... while (p && *p++ == ',')\<close> loop over the items of a \<^verbatim>\<open>collect\<close>.
\<close>

function validate_collect ::
    "collaborators \<Rightarrow> tracepoint \<Rightarrow> string \<Rightarrow> error + actionline_type" where
  "validate_collect cb t p =
     (case validate_item cb t (dropWhile isspace p) of
        Inl e \<Rightarrow> Inl e
      | Inr (Inl badline) \<Rightarrow> Inr badline
      | Inr (Inr None) \<Rightarrow> Inr GENERIC
      | Inr (Inr (Some [])) \<Rightarrow> Inr GENERIC
      | Inr (Inr (Some (c # rest))) \<Rightarrow>
          if c = CHR '','' then validate_collect cb t rest else Inr GENERIC)"
  by pat_completeness auto
termination
proof (relation "measure (\<lambda>(cb, t, p). length p)")
  show "wf (measure (\<lambda>(cb, t, p). length p))" by simp
next
  fix cb t p x2 ba x2a x2b c rest
  assume "validate_item cb t (dropWhile isspace p) = Inr x2" "x2 = Inr ba" "ba = Some x2b"
    "x2b = c # rest"
  then have "validate_item cb t (dropWhile isspace p) = Inr (Inr (Some (c # rest)))" by simp
  from validate_item_length [OF this] length_dropWhile_le [of isspace p]
  show "((cb, t, rest), (cb, t, p)) \<in> measure (\<lambda>(cb, t, p). length p)" by simp
qed

declare validate_collect.simps [simp del]

text \<open>
  \<^verbatim>\<open>validate_actionline (line, t)\<close>.  The tracepoint is passed by pointer and
  \<^verbatim>\<open>while-stepping\<close> stores into it, so the tracepoint comes back with the answer.
\<close>

definition validate_actionline ::
    "collaborators \<Rightarrow> string \<Rightarrow> tracepoint \<Rightarrow> error + actionline_type \<times> tracepoint" where
  "validate_actionline cb line t =
     (let p = dropWhile isspace line in
      if p = [] then Inr (BADLINE, t)
      else if strncasecmp p ''collect'' 7 = 0 then
        (case validate_collect cb t (drop 7 p) of
           Inl e \<Rightarrow> Inl e
         | Inr linetype \<Rightarrow> Inr (linetype, t))
      else if strncasecmp p ''while-stepping'' 14 = 0 then
        (let steparg = dropWhile isspace (drop 14 p) in
         if steparg \<noteq> [] then
           (let t' = t\<lparr>step_count := fst (strtol steparg 0)\<rparr> in
            if step_count t' = 0 then Inr (BADLINE, t') else Inr (STEPPING, t'))
         else Inr (STEPPING, t\<lparr>step_count := - 1\<rparr>))
      else if strncasecmp p ''end'' 3 = 0 then Inr (END, t)
      else Inr (BADLINE, t))"

section \<open>The tracepoint registry\<close>

text \<open>
  The static variables of the file, the convenience variables of the debugger, and the
  packet channel: \<open>sent\<close> are the packets \<^verbatim>\<open>putpkt\<close> has sent, oldest first, \<open>inbox\<close> the
  packets the stub is going to answer with, and \<open>console\<close> what
  \<^verbatim>\<open>remote_console_output\<close> was given.  The chain of tracepoints is a list, the head of
  the chain first; a pointer to a tracepoint of the chain is its position.
\<close>

record tracer =
  tracepoint_chain :: "tracepoint list"
  tracepoint_count :: c_int
  traceframe_number :: c_int
  tracepoint_number :: c_int
  traceframe_fun :: "symbol option"
  traceframe_sal :: symtab_and_line
  internalvars :: "string \<Rightarrow> gdb_value option"
  sent :: "string list"
  inbox :: "string list"
  console :: "string list"

definition set_internalvar :: "string \<Rightarrow> gdb_value \<Rightarrow> tracer \<Rightarrow> tracer" where
  "set_internalvar name v st = st\<lparr>internalvars := (internalvars st)(name \<mapsto> v)\<rparr>"

definition set_tracepoint_count :: "c_int \<Rightarrow> tracer \<Rightarrow> tracer" where
  "set_tracepoint_count num st =
     set_internalvar ''tpnum'' (Int_Value num) (st\<lparr>tracepoint_count := num\<rparr>)"

subsection \<open>set_raw_tracepoint\<close>

text \<open>
  Strings in a buffer, as the C library handles them: the string of a buffer ends at
  its first NUL.
\<close>

definition NUL :: char where
  "NUL = CHR 0x00"

definition c_string :: "string \<Rightarrow> string" where
  "c_string buf = takeWhile (\<lambda>c. c \<noteq> NUL) buf"

definition c_strcpy :: "string \<Rightarrow> string \<Rightarrow> string" where
  "c_strcpy buf src = src @ NUL # drop (length src + 1) buf"

definition c_strcat :: "string \<Rightarrow> string \<Rightarrow> string" where
  "c_strcat buf src =
     take (length (c_string buf)) buf @ src @ NUL #
       drop (length (c_string buf) + length src + 1) buf"

text \<open>
  The source file name of a new tracepoint.  The buffer comes from \<^verbatim>\<open>xmalloc\<close> with
  whatever it holds.  After \<^verbatim>\<open>strcpy\<close>, \<^verbatim>\<open>p = t->source_file; while (*p++) ;\<close> leaves \<open>p\<close>
  one past the terminating NUL, and \<^verbatim>\<open>*p\<close> is the byte tested against \<open>/\<close>.
\<close>

definition make_source_file :: "(nat \<Rightarrow> char) \<Rightarrow> string \<Rightarrow> string \<Rightarrow> string" where
  "make_source_file fresh dir file =
     (let buf = map fresh [0 ..< length file + length dir + 2];
          buf = c_strcpy buf dir;
          p = length (c_string buf) + 1;
          buf = (if buf ! p \<noteq> CHR ''/'' then c_strcat buf ''/'' else buf);
          buf = c_strcat buf file
      in c_string buf)"

text \<open>
  \<^verbatim>\<open>set_raw_tracepoint (sal)\<close> appends the new tracepoint to the chain; the caller
  finds it at the end.  \<^verbatim>\<open>strlen\<close> of a null name is a crash.
\<close>

definition set_raw_tracepoint ::
    "collaborators \<Rightarrow> symtab_and_line \<Rightarrow> tracer \<Rightarrow> error + tracer" where
  "set_raw_tracepoint cb sal st =
     (case
        (case sal_symtab sal of
           None \<Rightarrow> Inr None
         | Some tab \<Rightarrow>
             (case filename tab of
                None \<Rightarrow> Inl Null_Dereference
              | Some file \<Rightarrow>
                  (case dirname tab of
                     None \<Rightarrow> Inl Null_Dereference
                   | Some dir \<Rightarrow> Inr (Some (make_source_file (fresh_block cb) dir file)))))
      of
        Inl e \<Rightarrow> Inl e
      | Inr name \<Rightarrow>
          Inr (st\<lparr>tracepoint_chain := tracepoint_chain st @
                 [\<lparr>number = 0, address = sal_pc sal, source_file = name,
                   line_number = sal_line sal, tp_enabled = enabled, step_count = 0,
                   pass_count = 0, addr_string = None, cond_string = None,
                   language = current_language cb, input_radix = current_input_radix cb,
                   actions = []\<rparr>]\<rparr>))"

subsection \<open>trace_command\<close>

text \<open>
  One turn of the loop that sets the tracepoints: the tracepoint is made, the count goes
  up by one (in \<^verbatim>\<open>int\<close>: it wraps), and the new tracepoint, the last of the chain, gets
  the count as its number and the canonical string or the text of the command as its
  address string.
\<close>

definition create_tracepoint ::
    "collaborators \<Rightarrow> string \<Rightarrow> string option \<Rightarrow> symtab_and_line \<Rightarrow> tracer \<Rightarrow>
     error + tracer" where
  "create_tracepoint cb addr canonical sal st =
     (case set_raw_tracepoint cb sal st of
        Inl e \<Rightarrow> Inl e
      | Inr st1 \<Rightarrow>
          (let st2 = set_tracepoint_count (tracepoint_count st1 + 1) st1;
               i = length (tracepoint_chain st2) - 1;
               t = (tracepoint_chain st2 ! i)
                     \<lparr>number := tracepoint_count st2,
                      addr_string := (case canonical of Some s \<Rightarrow> Some s | None \<Rightarrow> Some addr)\<rparr>
           in Inr (st2\<lparr>tracepoint_chain := (tracepoint_chain st2)[i := t]\<rparr>)))"

fun create_tracepoints ::
    "collaborators \<Rightarrow> string \<Rightarrow> string option list option \<Rightarrow> nat \<Rightarrow> symtab_and_line list \<Rightarrow>
     tracer \<Rightarrow> error option \<times> tracer" where
  "create_tracepoints cb addr canonical i [] st = (None, st)"
| "create_tracepoints cb addr canonical i (sal # sals) st =
     (case create_tracepoint cb addr
             (case canonical of None \<Rightarrow> None
              | Some cs \<Rightarrow> if i < length cs then cs ! i else None) sal st of
        Inl e \<Rightarrow> (Some e, st)
      | Inr st' \<Rightarrow> create_tracepoints cb addr canonical (i + 1) sals st')"

text \<open>
  \<^verbatim>\<open>trace_command (arg, from_tty)\<close>; a null argument is \<open>None\<close>.  A command returns the
  error that ended it, if any, and the state it leaves.
\<close>

definition trace_command ::
    "collaborators \<Rightarrow> string option \<Rightarrow> tracer \<Rightarrow> error option \<times> tracer" where
  "trace_command cb arg st =
     (case arg of
        None \<Rightarrow> (Some Trace_Requires_Argument, st)
      | Some [] \<Rightarrow> (Some Trace_Requires_Argument, st)
      | Some (c # cs) \<Rightarrow>
          if c = CHR ''/'' then (None, st)
          else
            (case decode_line_1 cb (c # cs) of
               Inl e \<Rightarrow> (Some e, st)
             | Inr (sals, canonical, n) \<Rightarrow>
                 create_tracepoints cb (take n (c # cs)) canonical 0 sals st))"

subsection \<open>enable, disable, delete\<close>

datatype tracepoint_opcode = enable | disable | delete

text \<open>\<^verbatim>\<open>tracepoint_operation (t, from_tty, opcode)\<close>, \<open>t\<close> being the position \<open>i\<close>.\<close>

definition tracepoint_operation :: "nat \<Rightarrow> tracepoint_opcode \<Rightarrow> tracer \<Rightarrow> tracer" where
  "tracepoint_operation i opcode st =
     (case opcode of
        enable \<Rightarrow>
          st\<lparr>tracepoint_chain :=
               (tracepoint_chain st)[i := (tracepoint_chain st ! i)\<lparr>tp_enabled := enabled\<rparr>]\<rparr>
      | disable \<Rightarrow>
          st\<lparr>tracepoint_chain :=
               (tracepoint_chain st)[i := (tracepoint_chain st ! i)\<lparr>tp_enabled := disabled\<rparr>]\<rparr>
      | delete \<Rightarrow>
          st\<lparr>tracepoint_chain := take i (tracepoint_chain st) @ drop (Suc i) (tracepoint_chain st)\<rparr>)"

fun lookup_number :: "c_int \<Rightarrow> tracepoint list \<Rightarrow> nat option" where
  "lookup_number tpnum [] = None"
| "lookup_number tpnum (t # ts) =
     (if number t = tpnum then Some 0 else map_option Suc (lookup_number tpnum ts))"

definition isalnum :: "char \<Rightarrow> bool" where
  "isalnum c \<longleftrightarrow> digit_value c \<noteq> None"

text \<open>
  \<^verbatim>\<open>get_tracepoint_by_number (&arg)\<close>: the answer is the position of the tracepoint, if
  there is one with that number, and the text left.  A null and an empty text are not
  told apart: both stand for the number of the last tracepoint made.
\<close>

definition get_tracepoint_by_number :: "tracer \<Rightarrow> string \<Rightarrow> error + nat option \<times> string" where
  "get_tracepoint_by_number st arg =
     (case
        (case arg of
           [] \<Rightarrow> Inr (tracepoint_count st, arg)
         | c # cs \<Rightarrow>
             if c = CHR ''$'' then
               (case internalvars st (takeWhile (\<lambda>x. isalnum x \<or> x = CHR ''_'') cs) of
                  Some (Int_Value v) \<Rightarrow> Inr (v, dropWhile (\<lambda>x. isalnum x \<or> x = CHR ''_'') cs)
                | _ \<Rightarrow> Inl Convenience_Not_Integral)
             else Inr (strtol arg 10))
      of
        Inl e \<Rightarrow> Inl e
      | Inr (tpnum, rest) \<Rightarrow> Inr (lookup_number tpnum (tracepoint_chain st), rest))"

text \<open>
  \<^verbatim>\<open>ALL_TRACEPOINTS (t) tracepoint_operation (t, from_tty, opcode)\<close>, a \<^verbatim>\<open>for\<close> loop
  that steps with \<^verbatim>\<open>t = t->next\<close>: \<open>n\<close> tracepoints are still to be visited and the
  next one is at position \<open>i\<close>.  For \<open>delete\<close>, \<open>tracepoint_operation\<close> unlinks the
  tracepoint and frees it, and the step of the loop then reads \<^verbatim>\<open>t->next\<close> from the
  freed block: the walk ends there.
\<close>

fun operate_on_all ::
    "tracepoint_opcode \<Rightarrow> nat \<Rightarrow> nat \<Rightarrow> tracer \<Rightarrow> error option \<times> tracer" where
  "operate_on_all opcode i 0 st = (None, st)"
| "operate_on_all opcode i (Suc n) st =
     (if opcode = delete then (Some Use_After_Free, tracepoint_operation i opcode st)
      else operate_on_all opcode (i + 1) n (tracepoint_operation i opcode st))"

text \<open>
  The loop over the numbers of an argument list.  \<^verbatim>\<open>strtol\<close> does not move over a
  text that is no number, and then the loop does not end: the function is partial.
\<close>

partial_function (option) operate_on_numbers ::
    "tracepoint_opcode \<Rightarrow> string \<Rightarrow> tracer \<Rightarrow> (error option \<times> tracer) option" where
  "operate_on_numbers opcode args st =
     (if args = [] then Some (None, st)
      else
        (case get_tracepoint_by_number st args of
           Inl e \<Rightarrow> Some (Some e, st)
         | Inr (t, rest) \<Rightarrow>
             operate_on_numbers opcode
               (dropWhile (\<lambda>c. c = CHR '' '' \<or> c = CHR 0x09) rest)
               (case t of Some i \<Rightarrow> tracepoint_operation i opcode st | None \<Rightarrow> st)))"

definition map_args_over_tracepoints ::
    "string option \<Rightarrow> tracepoint_opcode \<Rightarrow> tracer \<Rightarrow> (error option \<times> tracer) option" where
  "map_args_over_tracepoints args opcode st =
     (case args of
        None \<Rightarrow> Some (operate_on_all opcode 0 (length (tracepoint_chain st)) st)
      | Some [] \<Rightarrow> Some (operate_on_all opcode 0 (length (tracepoint_chain st)) st)
      | Some (c # cs) \<Rightarrow> operate_on_numbers opcode (c # cs) st)"

definition enable_trace_command ::
    "string option \<Rightarrow> tracer \<Rightarrow> (error option \<times> tracer) option" where
  "enable_trace_command args st = map_args_over_tracepoints args enable st"

definition disable_trace_command ::
    "string option \<Rightarrow> tracer \<Rightarrow> (error option \<times> tracer) option" where
  "disable_trace_command args st = map_args_over_tracepoints args disable st"

definition delete_trace_command ::
    "collaborators \<Rightarrow> string option \<Rightarrow> tracer \<Rightarrow> (error option \<times> tracer) option" where
  "delete_trace_command cb args st =
     (if (args = None \<or> args = Some []) \<and> \<not> query cb ''Delete all tracepoints? ''
      then Some (None, st)
      else map_args_over_tracepoints args delete st)"

subsection \<open>trace_pass_command\<close>

text \<open>
  \<open>t1\<close> is \<open>None\<close> for the argument \<^verbatim>\<open>all\<close> (the code's pointer \<^verbatim>\<open>-1\<close>) and a position
  otherwise.
\<close>

definition set_pass_counts :: "nat option \<Rightarrow> c_ulong \<Rightarrow> tracepoint list \<Rightarrow> tracepoint list" where
  "set_pass_counts t1 count chain =
     map (\<lambda>(i, t2). if t1 = None \<or> t1 = Some i then t2\<lparr>pass_count := count\<rparr> else t2)
       (zip [0 ..< length chain] chain)"

definition trace_pass_command :: "string option \<Rightarrow> tracer \<Rightarrow> error option \<times> tracer" where
  "trace_pass_command args st =
     (case args of
        None \<Rightarrow> (Some Pass_Requires_Argument, st)
      | Some [] \<Rightarrow> (Some Pass_Requires_Argument, st)
      | Some (c # cs) \<Rightarrow>
          (case strtoul (c # cs) 10 of
             (count, rest) \<Rightarrow>
               (let rest = dropWhile isspace rest in
                if rest \<noteq> [] \<and> strncasecmp rest ''all'' 3 = 0
                then (None, st\<lparr>tracepoint_chain := set_pass_counts None count (tracepoint_chain st)\<rparr>)
                else
                  (case get_tracepoint_by_number st rest of
                     Inl e \<Rightarrow> (Some e, st)
                   | Inr (None, rest') \<Rightarrow> (None, st)
                   | Inr (Some i, rest') \<Rightarrow>
                       (None, st\<lparr>tracepoint_chain :=
                                   set_pass_counts (Some i) count (tracepoint_chain st)\<rparr>)))))"

text \<open>
  The state after \<^verbatim>\<open>_initialize_tracepoint\<close>; the two cursor variables \<open>$trace_func\<close>,
  \<open>$trace_file\<close> and \<open>$trace_line\<close> are not set yet.
\<close>

definition initial_tracer :: tracer where
  "initial_tracer =
     \<lparr>tracepoint_chain = [], tracepoint_count = 0, traceframe_number = - 1,
      tracepoint_number = - 1, traceframe_fun = None,
      traceframe_sal = \<lparr>sal_symtab = None, sal_line = 0, sal_pc = 0\<rparr>,
      internalvars = [''tpnum'' \<mapsto> Int_Value 0, ''trace_frame'' \<mapsto> Int_Value 0],
      sent = [], inbox = [], console = []\<rparr>"

text \<open>
  The two invariants of the registry: numbers grow strictly along the chain, and no
  number is above the count.  Both compare \<^verbatim>\<open>int\<close>s, signed.
\<close>

definition chain_ordered :: "tracer \<Rightarrow> bool" where
  "chain_ordered st \<longleftrightarrow>
     sorted_wrt (\<lambda>a b. sint (number a) < sint (number b)) (tracepoint_chain st)"

definition count_covers :: "tracer \<Rightarrow> bool" where
  "count_covers st \<longleftrightarrow>
     list_all (\<lambda>t. sint (number t) \<le> sint (tracepoint_count st)) (tracepoint_chain st)"

section \<open>A host to run the commands on\<close>

text \<open>
  One choice of collaborators, for running the commands on concrete inputs: every
  location resolves to the single address \<^verbatim>\<open>0x4010c0\<close> without line information, no
  expression parses, the target has sixteen registers of four bytes, and fresh memory is
  zeroed.
\<close>

definition plain_host :: collaborators where
  "plain_host =
     \<lparr>parse_exp_1 = (\<lambda>text pc. Inl Collaborator_Error),
      blocks_for_pc = (\<lambda>pc. []),
      find_pc_line = (\<lambda>pc. \<lparr>sal_symtab = None, sal_line = 0, sal_pc = pc\<rparr>),
      find_pc_function = (\<lambda>pc. None),
      parse_and_eval_address = (\<lambda>text. Inr (fst (strtol text 0))),
      decode_line_1 =
        (\<lambda>text. Inr ([\<lparr>sal_symtab = None, sal_line = 0, sal_pc = 0x4010c0\<rparr>], None,
                       length text)),
      read_pc = 0x4010c0,
      current_frame_pc = 0x4010c0,
      NUM_REGS = 16,
      FP_REGNUM = 14,
      MAX_REGISTER_VIRTUAL_SIZE = 8,
      REGISTER_RAW_SIZE = (\<lambda>regno. 4),
      qsort = insertion_qsort,
      target_is_remote = True,
      current_language = 0,
      current_input_radix = 10,
      fresh_block = (\<lambda>offset. NUL),
      query = (\<lambda>question. True),
      fromhex = (\<lambda>c. case digit_value c of
                         Some d \<Rightarrow> if d < 16 then Inr d else Inl Collaborator_Error
                       | None \<Rightarrow> Inl Collaborator_Error)\<rparr>"

text \<open>The command \<^verbatim>\<open>trace main\<close> on that host.\<close>

definition trace_main :: "tracer \<Rightarrow> tracer" where
  "trace_main st = snd (trace_command plain_host (Some ''main'') st)"

text \<open>
  The command \<^verbatim>\<open>delete tracepoints\<close> with an argument on that host, and the two
  commands \<^verbatim>\<open>trace main\<close> and \<^verbatim>\<open>delete tracepoints $tpnum\<close> one after the other: a
  tracepoint is made and deleted again.
\<close>

definition delete_tracepoints :: "string \<Rightarrow> tracer \<Rightarrow> tracer" where
  "delete_tracepoints args st =
     (case delete_trace_command plain_host (Some args) st of
        Some (r, st') \<Rightarrow> st'
      | None \<Rightarrow> st)"

definition trace_and_delete :: "tracer \<Rightarrow> tracer" where
  "trace_and_delete st = delete_tracepoints ''$tpnum'' (trace_main st)"

text \<open>
  A short session: \<^verbatim>\<open>trace main\<close> twice, \<^verbatim>\<open>delete tracepoints 2\<close>, and \<^verbatim>\<open>trace main\<close>
  once more.
\<close>

definition traced_twice :: tracer where
  "traced_twice = trace_main (trace_main initial_tracer)"

definition one_deleted :: tracer where
  "one_deleted = delete_tracepoints ''2'' traced_twice"

definition traced_again :: tracer where
  "traced_again = trace_main one_deleted"

text \<open>
  A long session: a tracepoint is made and deleted again \<open>2^31 - 2\<close> times, so that the
  chain is empty and the count is \<open>2^31 - 2\<close>.
\<close>

definition count_run_up :: tracer where
  "count_run_up = (trace_and_delete ^^ 2147483646) initial_tracer"

text \<open>The locations a \<^verbatim>\<open>trace\<close> command is about to make tracepoints for.\<close>

definition pending_locations :: "collaborators \<Rightarrow> string option \<Rightarrow> nat" where
  "pending_locations cb arg =
     (case arg of
        None \<Rightarrow> 0
      | Some text \<Rightarrow>
          (case decode_line_1 cb text of Inl e \<Rightarrow> 0 | Inr (sals, canonical, n) \<Rightarrow> length sals))"

section \<open>The trace-frame cursor\<close>

definition set_traceframe_num :: "c_int \<Rightarrow> tracer \<Rightarrow> tracer" where
  "set_traceframe_num num st =
     set_internalvar ''trace_frame'' (Int_Value num) (st\<lparr>traceframe_number := num\<rparr>)"

definition set_tracepoint_num :: "c_int \<Rightarrow> tracer \<Rightarrow> tracer" where
  "set_tracepoint_num num st =
     set_internalvar ''tracepoint'' (Int_Value num) (st\<lparr>tracepoint_number := num\<rparr>)"

text \<open>
  \<^verbatim>\<open>set_traceframe_context (trace_pc)\<close>.  \<^verbatim>\<open>trace_pc == -1\<close> compares the unsigned
  address with all bits set.  A null pointer to \<^verbatim>\<open>char\<close> is \<open>Char_Pointer 0\<close>.
\<close>

definition set_traceframe_context :: "collaborators \<Rightarrow> core_addr \<Rightarrow> tracer \<Rightarrow> tracer" where
  "set_traceframe_context cb trace_pc st =
     (if trace_pc = - 1 then
        set_internalvar ''trace_line'' (Int_Value (- 1))
          (set_internalvar ''trace_file'' (Char_Pointer 0)
            (set_internalvar ''trace_func'' (Char_Pointer 0)
              (st\<lparr>traceframe_fun := None,
                  traceframe_sal := (traceframe_sal st)
                    \<lparr>sal_pc := 0, sal_line := 0, sal_symtab := None\<rparr>\<rparr>)))
      else
        (let st1 = st\<lparr>traceframe_sal := find_pc_line cb trace_pc,
                       traceframe_fun := find_pc_function cb trace_pc\<rparr>;
             st2 = set_internalvar ''trace_line'' (Int_Value (sal_line (traceframe_sal st1))) st1;
             st3 = set_internalvar ''trace_func''
                     (case traceframe_fun st2 of
                        None \<Rightarrow> Char_Pointer 0
                      | Some f \<Rightarrow>
                          (case SYMBOL_NAME f of
                             None \<Rightarrow> Char_Pointer 0
                           | Some name \<Rightarrow> Char_Array name)) st2
         in set_internalvar ''trace_file''
              (case sal_symtab (traceframe_sal st3) of
                 None \<Rightarrow> Char_Pointer 0
               | Some tab \<Rightarrow>
                   (case filename tab of None \<Rightarrow> Char_Pointer 0 | Some name \<Rightarrow> Char_Array name))
              st3))"

text \<open>The three variables of the context hold a null pointer, a null pointer and -1.\<close>

definition context_cleared :: "tracer \<Rightarrow> bool" where
  "context_cleared st \<longleftrightarrow>
     internalvars st ''trace_func'' = Some (Char_Pointer 0) \<and>
     internalvars st ''trace_file'' = Some (Char_Pointer 0) \<and>
     internalvars st ''trace_line'' = Some (Int_Value (- 1))"

section \<open>The protocol engine\<close>

subsection \<open>Replies\<close>

text \<open>
  \<^verbatim>\<open>trace_error (buf)\<close>: the error of a packet that starts with \<open>E\<close>, and \<open>None\<close> for any
  other packet, where the function returns.
\<close>

definition trace_error :: "string \<Rightarrow> error option" where
  "trace_error buf =
     (case buf of
        [] \<Rightarrow> None
      | c # buf1 \<Rightarrow>
          if c \<noteq> CHR ''E'' then None
          else
            (case buf1 of
               [] \<Rightarrow> Some (Target_Error_Code buf1)
             | k # buf2 \<Rightarrow>
                 if k = CHR ''1'' then
                   (if (case buf2 of z # _ \<Rightarrow> z = CHR ''0'' | [] \<Rightarrow> False)
                    then Some Outgoing_Packet_Error
                    else Some (Outgoing_Field_Error (fst (strtol buf2 16))))
                 else if k = CHR ''2'' then Some (Trace_API_Error buf2)
                 else Some (Target_Error_Code buf1)))"

text \<open>
  The bytes of one register: \<open>n\<close> pairs of hexadecimal digits.  Where the reply is too
  short the code only warns and hands the terminator to \<^verbatim>\<open>fromhex\<close>; should \<^verbatim>\<open>fromhex\<close>
  accept it, the pointer moves behind the end of the buffer.
\<close>

fun receive_bytes :: "collaborators \<Rightarrow> nat \<Rightarrow> string \<Rightarrow> error + string" where
  "receive_bytes cb 0 p = Inr p"
| "receive_bytes cb (Suc n) p =
     (case fromhex cb (case p of a # _ \<Rightarrow> a | [] \<Rightarrow> NUL) of
        Inl e \<Rightarrow> Inl e
      | Inr high \<Rightarrow>
          (case fromhex cb (case p of a # b # _ \<Rightarrow> b | _ \<Rightarrow> NUL) of
             Inl e \<Rightarrow> Inl e
           | Inr low \<Rightarrow>
               (case p of a # b # rest \<Rightarrow> receive_bytes cb n rest | _ \<Rightarrow> Inl Buffer_Overrun)))"

lemma receive_bytes_length: "receive_bytes cb n p = Inr rest \<Longrightarrow> length rest \<le> length p"
  by (induction n arbitrary: p) (auto split: sum.splits list.splits intro: le_SucI dest!: meta_spec)

text \<open>
  \<^verbatim>\<open>trace_receive_regs (buf)\<close>: the error that ends it, or \<open>None\<close> when every register
  of the packet was handed to \<^verbatim>\<open>supply_register\<close> (the register cache is not part of
  the state).
\<close>

function trace_receive_regs :: "collaborators \<Rightarrow> string \<Rightarrow> error option" where
  "trace_receive_regs cb p =
     (if p = [] then None
      else
        (case strtol p 16 of
           (regno, tmp) \<Rightarrow>
             if length tmp = length p then Some Malformed_R_Packet
             else
               (case tmp of
                  [] \<Rightarrow> Some Malformed_R_Packet
                | c # p1 \<Rightarrow>
                    if c \<noteq> CHR '':'' then Some Malformed_R_Packet
                    else
                      (case receive_bytes cb (REGISTER_RAW_SIZE cb regno) p1 of
                         Inl e \<Rightarrow> Some e
                       | Inr p2 \<Rightarrow>
                           (case p2 of
                              [] \<Rightarrow> Some Malformed_R_Packet
                            | s # p3 \<Rightarrow>
                                if s \<noteq> CHR '';'' then Some Malformed_R_Packet
                                else trace_receive_regs cb p3)))))"
  by pat_completeness auto
termination
proof (relation "measure (\<lambda>(cb, p). length p)")
  show "wf (measure (\<lambda>(cb, p). length p))" by simp
next
  fix cb p x regno tmp c p1 p2 s p3
  assume "(regno, tmp) = strtol p 16" "tmp = c # p1"
    "receive_bytes cb (REGISTER_RAW_SIZE cb regno) p1 = Inr p2" "p2 = s # p3"
  with strtol_length [of p 16] receive_bytes_length [of cb "REGISTER_RAW_SIZE cb regno" p1 p2]
  have "length p3 < length p" by (cases "strtol p 16") auto
  then show "((cb, p3), (cb, p)) \<in> measure (\<lambda>(cb, p). length p)" by simp
qed

declare trace_receive_regs.simps [simp del]

definition putpkt :: "string \<Rightarrow> tracer \<Rightarrow> tracer" where
  "putpkt buf st = st\<lparr>sent := sent st @ [buf]\<rparr>"

text \<open>
  \<^verbatim>\<open>remote_get_noisy_reply\<close>, on the packets still to come and the console.  A stub
  with nothing more to say is read as the empty packet, which is how \<^verbatim>\<open>getpkt\<close> comes
  back after its time-out.  The register packet is handed to \<open>trace_receive_regs\<close> with
  its leading \<open>R\<close>, as the code does.
\<close>

fun noisy_reply ::
    "collaborators \<Rightarrow> string list \<Rightarrow> string list \<Rightarrow> (error + string) \<times> string list \<times> string list"
  where
  "noisy_reply cb [] output = (Inl Unsupported_Command, [], output)"
| "noisy_reply cb (buf # packets) output =
     (case buf of
        [] \<Rightarrow> (Inl Unsupported_Command, packets, output)
      | c # buf1 \<Rightarrow>
          if c = CHR ''E'' then
            (case trace_error buf of
               Some e \<Rightarrow> (Inl e, packets, output)
             | None \<Rightarrow> noisy_reply cb packets output)
          else if c = CHR ''R'' then
            (case trace_receive_regs cb buf of
               Some e \<Rightarrow> (Inl e, packets, output)
             | None \<Rightarrow> noisy_reply cb packets output)
          else if c = CHR ''O'' \<and> (case buf1 of k # _ \<Rightarrow> k \<noteq> CHR ''K'' | [] \<Rightarrow> True) then
            noisy_reply cb packets (output @ [buf1])
          else (Inr buf, packets, output))"

definition remote_get_noisy_reply :: "collaborators \<Rightarrow> tracer \<Rightarrow> (error + string) \<times> tracer" where
  "remote_get_noisy_reply cb st =
     (case noisy_reply cb (inbox st) (console st) of
        (reply, packets, output) \<Rightarrow> (reply, st\<lparr>inbox := packets, console := output\<rparr>))"

subsection \<open>Selecting a frame\<close>

text \<open>
  The loop of \<^verbatim>\<open>finish_tfind_command\<close> over the reply: \<open>F\<close> and \<open>T\<close> with a hexadecimal
  number each, or \<open>OK\<close> at the very end.  The answer is the frame number and the
  tracepoint number, -1 each where the reply does not give one.
\<close>

function tfind_reply :: "string \<Rightarrow> c_int \<Rightarrow> c_int \<Rightarrow> error + c_int \<times> c_int" where
  "tfind_reply reply target_frameno target_tracept =
     (case reply of
        [] \<Rightarrow> Inr (target_frameno, target_tracept)
      | c # reply1 \<Rightarrow>
          if c = CHR ''F'' then
            (case strtol reply1 16 of
               (v, rest) \<Rightarrow> if v = - 1 then Inl Frame_Not_Found
                            else tfind_reply rest v target_tracept)
          else if c = CHR ''T'' then
            (case strtol reply1 16 of
               (v, rest) \<Rightarrow> if v = - 1 then Inl Frame_Not_Found
                            else tfind_reply rest target_frameno v)
          else if c = CHR ''O'' then
            (if reply1 = ''K'' then tfind_reply [] target_frameno target_tracept
             else Inl (Bogus_Reply reply))
          else Inl (Bogus_Reply reply))"
  by pat_completeness auto
termination
proof (relation "measure (\<lambda>(reply, f, t). length reply)")
  show "wf (measure (\<lambda>(reply, f, t). length reply))" by simp
next
  fix reply :: string and f t :: c_int and c reply1 x v rest
  assume "reply = c # reply1" "(v, rest) = strtol reply1 16"
  with strtol_length [of reply1 16] have "length rest < length reply"
    by (cases "strtol reply1 16") auto
  then show "((rest, v, t), (reply, f, t)) \<in> measure (\<lambda>(reply, f, t). length reply)" by simp
  from \<open>length rest < length reply\<close>
  show "((rest, f, v), (reply, f, t)) \<in> measure (\<lambda>(reply, f, t). length reply)" by simp
next
  fix reply :: string and f t :: c_int and c reply1
  assume "reply = c # reply1"
  then show "(([], f, t), (reply, f, t)) \<in> measure (\<lambda>(reply, f, t). length reply)" by simp
qed

declare tfind_reply.simps [simp del]

text \<open>
  \<^verbatim>\<open>finish_tfind_command (reply, from_tty)\<close>.  Flushing the frame cache, marking the
  registers and selecting the frame again act on the debugger around the file; what
  they leave behind for the file is \<open>current_frame_pc\<close>.
\<close>

definition finish_tfind_command ::
    "collaborators \<Rightarrow> string \<Rightarrow> tracer \<Rightarrow> error option \<times> tracer" where
  "finish_tfind_command cb reply st =
     (case tfind_reply reply (- 1) (- 1) of
        Inl e \<Rightarrow> (Some e, st)
      | Inr (target_frameno, target_tracept) \<Rightarrow>
          (None,
           set_traceframe_context cb (current_frame_pc cb)
             (set_tracepoint_num target_tracept (set_traceframe_num target_frameno st))))"

text \<open>A packet is sent and the reply to it handed to \<open>finish_tfind_command\<close>.\<close>

definition tfind_request ::
    "collaborators \<Rightarrow> string \<Rightarrow> tracer \<Rightarrow> error option \<times> tracer" where
  "tfind_request cb packet st =
     (case remote_get_noisy_reply cb (putpkt packet st) of
        (Inl e, st') \<Rightarrow> (Some e, st')
      | (Inr tmp, st') \<Rightarrow> finish_tfind_command cb tmp st')"

text \<open>
  \<^verbatim>\<open>trace_find_command (args, from_tty)\<close>.  The frame asked for is the next one without
  an argument, the one before for \<open>-\<close>, and the value of the argument otherwise; asking
  for frame -1 ends the inspection of the trace buffer.
\<close>

definition trace_find_command ::
    "collaborators \<Rightarrow> string option \<Rightarrow> tracer \<Rightarrow> error option \<times> tracer" where
  "trace_find_command cb args st =
     (if target_is_remote cb then
        (case
           (if args = None \<or> args = Some [] then
              Inr (if traceframe_number st = - 1 then 0 else traceframe_number st + 1)
            else if args = Some ''-'' then
              (if traceframe_number st = - 1 then Inl Not_Debugging_Trace_Buffer
               else if traceframe_number st = 0 then Inl Already_At_Start
               else Inr (traceframe_number st - 1))
            else parse_and_eval_address cb (case args of Some a \<Rightarrow> a | None \<Rightarrow> []))
         of
           Inl e \<Rightarrow> (Some e, st)
         | Inr frameno \<Rightarrow>
             (case remote_get_noisy_reply cb (putpkt (''QTFrame:'' @ fmt_x frameno) st) of
                (Inl e, st') \<Rightarrow> (Some e, st')
              | (Inr tmp, st') \<Rightarrow>
                  if frameno = - 1 then
                    (if tmp \<noteq> ''F-1'' then (Some (Bogus_Response tmp), st')
                     else
                       (None,
                        set_traceframe_context cb (- 1)
                          (set_tracepoint_num (- 1) (set_traceframe_num (- 1) st'))))
                  else finish_tfind_command cb tmp st'))
      else (Some Not_Remote, st))"



definition trace_find_start_command :: "collaborators \<Rightarrow> tracer \<Rightarrow> error option \<times> tracer" where
  "trace_find_start_command cb st = trace_find_command cb (Some ''0'') st"

definition trace_find_pc_command ::
    "collaborators \<Rightarrow> string option \<Rightarrow> tracer \<Rightarrow> error option \<times> tracer" where
  "trace_find_pc_command cb args st =
     (if target_is_remote cb then
        (case (if args = None \<or> args = Some [] then Inr (read_pc cb)
               else parse_and_eval_address cb (case args of Some a \<Rightarrow> a | None \<Rightarrow> [])) of
           Inl e \<Rightarrow> (Some e, st)
         | Inr pc \<Rightarrow> tfind_request cb (''QTFrame:pc:'' @ fmt_x pc) st)
      else (Some Not_Remote, st))"

definition trace_find_tracepoint_command ::
    "collaborators \<Rightarrow> string option \<Rightarrow> tracer \<Rightarrow> error option \<times> tracer" where
  "trace_find_tracepoint_command cb args st =
     (if target_is_remote cb then
        (case (if args = None \<or> args = Some [] then
                 (if tracepoint_number st = - 1 then Inl No_Current_Tracepoint
                  else Inr (tracepoint_number st))
               else parse_and_eval_address cb (case args of Some a \<Rightarrow> a | None \<Rightarrow> [])) of
           Inl e \<Rightarrow> (Some e, st)
         | Inr tdp \<Rightarrow> tfind_request cb (''QTFrame:tdp:'' @ fmt_x tdp) st)
      else (Some Not_Remote, st))"

text \<open>
  The two addresses of \<^verbatim>\<open>tfind range\<close> and \<^verbatim>\<open>tfind outside\<close>: the texts on both sides
  of the first comma, or the one address and its successor when there is no comma.
\<close>

definition range_arguments ::
    "collaborators \<Rightarrow> string \<Rightarrow> error + core_addr \<times> core_addr" where
  "range_arguments cb args =
     (case strchr args (CHR '','') of
        Some (comma # tmp) \<Rightarrow>
          (case parse_and_eval_address cb (takeWhile (\<lambda>x. x \<noteq> CHR '','') args) of
             Inl e \<Rightarrow> Inl e
           | Inr start \<Rightarrow>
               (case parse_and_eval_address cb (dropWhile isspace tmp) of
                  Inl e \<Rightarrow> Inl e
                | Inr stop \<Rightarrow> Inr (start, stop)))
      | _ \<Rightarrow>
          (case parse_and_eval_address cb args of
             Inl e \<Rightarrow> Inl e
           | Inr start \<Rightarrow> Inr (start, start + 1)))"

definition trace_find_range_command ::
    "collaborators \<Rightarrow> string option \<Rightarrow> tracer \<Rightarrow> error option \<times> tracer" where
  "trace_find_range_command cb args st =
     (if target_is_remote cb then
        (case args of
           None \<Rightarrow> (None, st)
         | Some [] \<Rightarrow> (None, st)
         | Some (c # cs) \<Rightarrow>
             (case range_arguments cb (c # cs) of
                Inl e \<Rightarrow> (Some e, st)
              | Inr (start, stop) \<Rightarrow>
                  tfind_request cb (''QTFrame:range:'' @ fmt_x start @ '':'' @ fmt_x stop) st))
      else (Some Not_Remote, st))"

definition trace_find_outside_command ::
    "collaborators \<Rightarrow> string option \<Rightarrow> tracer \<Rightarrow> error option \<times> tracer" where
  "trace_find_outside_command cb args st =
     (if target_is_remote cb then
        (case args of
           None \<Rightarrow> (None, st)
         | Some [] \<Rightarrow> (None, st)
         | Some (c # cs) \<Rightarrow>
             (case range_arguments cb (c # cs) of
                Inl e \<Rightarrow> (Some e, st)
              | Inr (start, stop) \<Rightarrow>
                  tfind_request cb (''QTFrame:outside:'' @ fmt_x start @ '':'' @ fmt_x stop) st))
      else (Some Not_Remote, st))"

section \<open>The action compiler\<close>

subsection \<open>collect_symbol and add_local_symbols\<close>

definition collect_symbol ::
    "collaborators \<Rightarrow> collection_list \<Rightarrow> symbol \<Rightarrow> error + collection_list" where
  "collect_symbol cb collect symb =
     (case SYMBOL_CLASS symb of
        LOC_STATIC \<Rightarrow> add_memrange collect 0 (SYMBOL_VALUE_ADDRESS symb) (TYPE_LENGTH symb)
      | LOC_REGISTER \<Rightarrow> add_register collect (SYMBOL_VALUE symb)
      | LOC_REGPARM \<Rightarrow> add_register collect (SYMBOL_VALUE symb)
      | LOC_REGPARM_ADDR \<Rightarrow> add_memrange collect (SYMBOL_VALUE symb) 0 (TYPE_LENGTH symb)
      | LOC_LOCAL \<Rightarrow> add_memrange collect (FP_REGNUM cb) (SYMBOL_VALUE symb) (TYPE_LENGTH symb)
      | LOC_LOCAL_ARG \<Rightarrow>
          add_memrange collect (FP_REGNUM cb) (SYMBOL_VALUE symb) (TYPE_LENGTH symb)
      | LOC_BASEREG \<Rightarrow>
          add_memrange collect (SYMBOL_BASEREG symb) (SYMBOL_VALUE symb) (TYPE_LENGTH symb)
      | LOC_BASEREG_ARG \<Rightarrow>
          add_memrange collect (SYMBOL_BASEREG symb) (SYMBOL_VALUE symb) (TYPE_LENGTH symb)
      | _ \<Rightarrow> Inr collect)"

text \<open>
  The symbols of one block, for \<open>type\<close> \<open>L\<close> (locals) or \<open>A\<close> (arguments).
\<close>

fun add_block_symbols ::
    "collaborators \<Rightarrow> char \<Rightarrow> symbol list \<Rightarrow> collection_list \<Rightarrow> error + collection_list" where
  "add_block_symbols cb type [] collect = Inr collect"
| "add_block_symbols cb type (symb # symbols) collect =
     (if (SYMBOL_CLASS symb \<in> {LOC_LOCAL, LOC_STATIC, LOC_REGISTER, LOC_BASEREG} \<and>
          type = CHR ''L'') \<or>
         (SYMBOL_CLASS symb \<in> {LOC_ARG, LOC_LOCAL_ARG, LOC_REF_ARG, LOC_REGPARM,
            LOC_REGPARM_ADDR, LOC_BASEREG_ARG} \<and> type = CHR ''A'')
      then
        (case collect_symbol cb collect symb of
           Inl e \<Rightarrow> Inl e
         | Inr collect' \<Rightarrow> add_block_symbols cb type symbols collect')
      else add_block_symbols cb type symbols collect)"

text \<open>The walk from the block of the pc outwards, up to the first function.\<close>

fun add_blocks ::
    "collaborators \<Rightarrow> char \<Rightarrow> block list \<Rightarrow> collection_list \<Rightarrow> error + collection_list" where
  "add_blocks cb type [] collect = Inr collect"
| "add_blocks cb type (b # superblocks) collect =
     (case add_block_symbols cb type (BLOCK_SYMS b) collect of
        Inl e \<Rightarrow> Inl e
      | Inr collect' \<Rightarrow>
          if BLOCK_FUNCTION b then Inr collect' else add_blocks cb type superblocks collect')"

definition add_local_symbols ::
    "collaborators \<Rightarrow> collection_list \<Rightarrow> core_addr \<Rightarrow> char \<Rightarrow> error + collection_list" where
  "add_local_symbols cb collect pc type = add_blocks cb type (blocks_for_pc cb pc) collect"

subsection \<open>encode_actions\<close>

text \<open>\<^verbatim>\<open>for (i = 0; i < NUM_REGS; i++) add_register (collect, i)\<close>, from \<open>i\<close> for \<open>n\<close> turns.\<close>

fun add_registers :: "nat \<Rightarrow> nat \<Rightarrow> collection_list \<Rightarrow> error + collection_list" where
  "add_registers i 0 collect = Inr collect"
| "add_registers i (Suc n) collect =
     (case add_register collect (of_nat i) of
        Inl e \<Rightarrow> Inl e
      | Inr collect' \<Rightarrow> add_registers (i + 1) n collect')"

text \<open>
  One item of a \<^verbatim>\<open>collect\<close> line is compiled into the list \<open>collect\<close>; the answer is the
  list and the pointer the loop goes on with.
\<close>

definition encode_item ::
    "collaborators \<Rightarrow> tracepoint \<Rightarrow> collection_list \<Rightarrow> string \<Rightarrow>
     error + collection_list \<times> string option" where
  "encode_item cb t collect action_exp =
     (if strncasecmp ''$reg'' action_exp 4 = 0 then
        (case add_registers 0 (NUM_REGS cb) collect of
           Inl e \<Rightarrow> Inl e
         | Inr collect' \<Rightarrow> Inr (collect', strchr action_exp (CHR '','')))
      else if strncasecmp ''$arg'' action_exp 4 = 0 then
        (case add_local_symbols cb collect (address t) (CHR ''A'') of
           Inl e \<Rightarrow> Inl e
         | Inr collect' \<Rightarrow> Inr (collect', strchr action_exp (CHR '','')))
      else if strncasecmp ''$loc'' action_exp 4 = 0 then
        (case add_local_symbols cb collect (address t) (CHR ''L'') of
           Inl e \<Rightarrow> Inl e
         | Inr collect' \<Rightarrow> Inr (collect', strchr action_exp (CHR '','')))
      else if take 2 action_exp = ''$('' then
        (case parse_and_eval_memrange cb action_exp (address t) of
           Inl e \<Rightarrow> Inl e
         | Inr (typecode, offset, sz, rest) \<Rightarrow>
             (case add_memrange collect typecode offset sz of
                Inl e \<Rightarrow> Inl e
              | Inr collect' \<Rightarrow> Inr (collect', Some rest)))
      else
        (case parse_exp_1 cb action_exp (address t) of
           Inl e \<Rightarrow> Inl e
         | Inr (exp, n) \<Rightarrow>
             (case (case exp of
                      OP_REGISTER i \<Rightarrow> add_register collect i
                    | OP_VAR_VALUE symb \<Rightarrow> collect_symbol cb collect symb
                    | OP_OTHER \<Rightarrow> Inr collect) of
                Inl e \<Rightarrow> Inl e
              | Inr collect' \<Rightarrow> Inr (collect', Some (drop n action_exp)))))"

lemma encode_item_length:
  "encode_item cb t collect p = Inr (collect', Some rest) \<Longrightarrow> length rest \<le> length p"
  by (auto simp add: encode_item_def
      split: if_splits sum.splits prod.splits
      dest: strchr_length parse_and_eval_memrange_length)

text \<open>The \<^verbatim>\<open>do ... while (action_exp && *action_exp++ == ',')\<close> loop of a \<^verbatim>\<open>collect\<close> line.\<close>

function encode_collect ::
    "collaborators \<Rightarrow> tracepoint \<Rightarrow> collection_list \<Rightarrow> string \<Rightarrow> error + collection_list" where
  "encode_collect cb t collect action_exp =
     (case encode_item cb t collect (dropWhile isspace action_exp) of
        Inl e \<Rightarrow> Inl e
      | Inr (collect', None) \<Rightarrow> Inr collect'
      | Inr (collect', Some []) \<Rightarrow> Inr collect'
      | Inr (collect', Some (c # rest)) \<Rightarrow>
          if c = CHR '','' then encode_collect cb t collect' rest else Inr collect')"
  by pat_completeness auto
termination
proof (relation "measure (\<lambda>(cb, t, collect, p). length p)")
  show "wf (measure (\<lambda>(cb, t, collect, p). length p))" by simp
next
  fix cb t collect action_exp x collect' next_exp found c rest
  assume "encode_item cb t collect (dropWhile isspace action_exp) = Inr x"
    "(collect', next_exp) = x" "next_exp = Some found" "found = c # rest"
  then have "encode_item cb t collect (dropWhile isspace action_exp) =
      Inr (collect', Some (c # rest))" by simp
  from encode_item_length [OF this] length_dropWhile_le [of isspace action_exp]
  show "((cb, t, collect', rest), (cb, t, collect, action_exp)) \<in>
      measure (\<lambda>(cb, t, collect, p). length p)" by simp
qed

declare encode_collect.simps [simp del]

text \<open>
  The walk over the action lines.  \<open>stepping\<close> tells that \<open>collect\<close> points at the
  stepping list; an \<^verbatim>\<open>end\<close> outside \<^verbatim>\<open>while-stepping\<close> ends the walk.
\<close>

fun encode_lines ::
    "collaborators \<Rightarrow> tracepoint \<Rightarrow> string list \<Rightarrow> bool \<Rightarrow> collection_list \<Rightarrow> collection_list \<Rightarrow>
     error + collection_list \<times> collection_list" where
  "encode_lines cb t [] stepping tracepoint_list stepping_list =
     Inr (tracepoint_list, stepping_list)"
| "encode_lines cb t (action # lines) stepping tracepoint_list stepping_list =
     (let action_exp = dropWhile isspace action in
      if strncasecmp action_exp ''collect'' 7 = 0 then
        (case encode_collect cb t (if stepping then stepping_list else tracepoint_list)
                (drop 7 action_exp) of
           Inl e \<Rightarrow> Inl e
         | Inr collect \<Rightarrow>
             if stepping then encode_lines cb t lines stepping tracepoint_list collect
             else encode_lines cb t lines stepping collect stepping_list)
      else if strncasecmp action_exp ''while-stepping'' 14 = 0 then
        encode_lines cb t lines True tracepoint_list stepping_list
      else if strncasecmp action_exp ''end'' 3 = 0 then
        (if stepping then encode_lines cb t lines False tracepoint_list stepping_list
         else Inr (tracepoint_list, stepping_list))
      else encode_lines cb t lines stepping tracepoint_list stepping_list)"

text \<open>
  \<^verbatim>\<open>stringify_collection_list (list, string)\<close> as \<^verbatim>\<open>encode_actions\<close> calls it, with one
  of its two static buffers \<^verbatim>\<open>tdp_buff[2048]\<close> and \<^verbatim>\<open>step_buff[2048]\<close> for \<open>string\<close>.
  The text and its terminating NUL are written from the start of the buffer whatever
  their length.  The answer is the pointer the function returns and the bytes that it
  has written behind the end of the buffer.
\<close>

definition sizeof_tdp_buff :: nat where
  "sizeof_tdp_buff = 2048"

definition stringify_into :: "nat \<Rightarrow> collection_list \<Rightarrow> string option \<times> string" where
  "stringify_into room list =
     (case stringify_collection_list list of
        None \<Rightarrow> (None, [])
      | Some string \<Rightarrow> (Some string, drop room (string @ [NUL])))"

text \<open>
  \<^verbatim>\<open>encode_actions\<close>: both scratch lists are cleared, filled, sorted and merged, and
  written out.  The answer is, for \<open>tdp_buff\<close> and for \<open>step_buff\<close>, the string, which
  may be the null pointer, and what has been written behind the buffer.
\<close>

definition encode_actions ::
    "collaborators \<Rightarrow> tracepoint \<Rightarrow>
     error + (string option \<times> string) \<times> (string option \<times> string)" where
  "encode_actions cb t =
     (case encode_lines cb t (actions t) False
             (clear_collection_list initial_list) (clear_collection_list initial_list) of
        Inl e \<Rightarrow> Inl e
      | Inr (tracepoint_list, stepping_list) \<Rightarrow>
          Inr (stringify_into sizeof_tdp_buff
                 (memrange_sortmerge (MAX_REGISTER_VIRTUAL_SIZE cb) (qsort cb) tracepoint_list),
               stringify_into sizeof_tdp_buff
                 (memrange_sortmerge (MAX_REGISTER_VIRTUAL_SIZE cb) (qsort cb) stepping_list)))"

subsection \<open>trace_start_command\<close>

definition sizeof_buf :: nat where
  "sizeof_buf = 2048"

text \<open>\<^verbatim>\<open>sprintf (buf, "QTDP:%x:%x:%c:%x:%x", ...)\<close>.\<close>

definition qtdp_header :: "tracepoint \<Rightarrow> string" where
  "qtdp_header t =
     ''QTDP:'' @ fmt_x (number t) @ '':'' @ fmt_x (address t) @ '':'' @
       [if tp_enabled t = enabled then CHR ''E'' else CHR ''D''] @ '':'' @
       fmt_x (step_count t) @ '':'' @ fmt_x (pass_count t)"

text \<open>
  The packet of one tracepoint as \<^verbatim>\<open>trace_start_command\<close> builds it in \<open>buf\<close>, with its
  two tests against the size of \<open>buf\<close>; the \<open>S\<close> is appended before the second test.
  The tests come after \<^verbatim>\<open>encode_actions\<close> has written both strings.  A string of 2048
  characters or more is read back from its buffer and from what lies behind it: the
  length \<^verbatim>\<open>strlen\<close> finds is 2048 at least, and the test fails as it does on the length
  of the string itself.
\<close>

definition qtdp_packet :: "collaborators \<Rightarrow> tracepoint \<Rightarrow> error + string" where
  "qtdp_packet cb t =
     (let buf = qtdp_header t in
      if actions t \<noteq> [] then
        (case encode_actions cb t of
           Inl e \<Rightarrow> Inl e
         | Inr ((tdp_actions, behind_tdp_buff), (stepping_actions, behind_step_buff)) \<Rightarrow>
             (case (case tdp_actions of
                      None \<Rightarrow> Inr buf
                    | Some tdp \<Rightarrow>
                        if sizeof_buf \<le> length buf + length tdp
                        then Inl (Actions_Too_Complex (number t))
                        else Inr (buf @ tdp)) of
                Inl e \<Rightarrow> Inl e
              | Inr buf \<Rightarrow>
                  (case stepping_actions of
                     None \<Rightarrow> Inr buf
                   | Some stepping \<Rightarrow>
                       (let buf = buf @ ''S'' in
                        if sizeof_buf \<le> length buf + length stepping
                        then Inl (Actions_Too_Complex (number t))
                        else Inr (buf @ stepping)))))
      else Inr buf)"

text \<open>\<^verbatim>\<open>ALL_TRACEPOINTS (t) { ... putpkt (buf); ... }\<close> of \<^verbatim>\<open>trace_start_command\<close>.\<close>

fun download_tracepoints ::
    "collaborators \<Rightarrow> tracepoint list \<Rightarrow> tracer \<Rightarrow> error option \<times> tracer" where
  "download_tracepoints cb [] st = (None, st)"
| "download_tracepoints cb (t # ts) st =
     (case qtdp_packet cb t of
        Inl e \<Rightarrow> (Some e, st)
      | Inr buf \<Rightarrow>
          (case remote_get_noisy_reply cb (putpkt buf st) of
             (Inl e, st') \<Rightarrow> (Some e, st')
           | (Inr reply, st') \<Rightarrow>
               if reply \<noteq> ''OK'' then (Some Unsupported_Tracepoints, st')
               else download_tracepoints cb ts st'))"

definition trace_start_command :: "collaborators \<Rightarrow> tracer \<Rightarrow> error option \<times> tracer" where
  "trace_start_command cb st =
     (if target_is_remote cb then
        (case remote_get_noisy_reply cb (putpkt ''QTinit'' st) of
           (Inl e, st1) \<Rightarrow> (Some e, st1)
         | (Inr reply, st1) \<Rightarrow>
             if reply \<noteq> ''OK'' then (Some Unsupported_Command, st1)
             else
               (case download_tracepoints cb (tracepoint_chain st1) st1 of
                  (Some e, st2) \<Rightarrow> (Some e, st2)
                | (None, st2) \<Rightarrow>
                    (case remote_get_noisy_reply cb (putpkt ''QTStart'' st2) of
                       (Inl e, st3) \<Rightarrow> (Some e, st3)
                     | (Inr reply, st3) \<Rightarrow>
                         if reply \<noteq> ''OK'' then (Some (Bogus_Reply reply), st3)
                         else
                           (None,
                            set_traceframe_context cb (- 1)
                              (set_tracepoint_num (- 1) (set_traceframe_num (- 1) st3))))))
      else (None, st))"

text \<open>
  What the specification calls the body of the \<open>QTDP\<close> packet of a tracepoint: the
  header, the tail for the tracepoint and, behind an \<open>S\<close>, the tail for stepping.
\<close>

definition qtdp_body :: "tracepoint \<Rightarrow> string option \<Rightarrow> string option \<Rightarrow> string" where
  "qtdp_body t tdp_actions stepping_actions =
     qtdp_header t @ (case tdp_actions of None \<Rightarrow> [] | Some tdp \<Rightarrow> tdp) @
       (case stepping_actions of None \<Rightarrow> [] | Some stepping \<Rightarrow> ''S'' @ stepping)"








section \<open>Properties of the collection list\<close>

subsection \<open>Reading words\<close>

lemma sint_same: "sint a = sint b \<longleftrightarrow> a = (b::32 word)"
  by (auto intro: signed_word_eqI)

lemma sint_zero: "sint a = 0 \<longleftrightarrow> a = (0::32 word)"
  using sint_same [of a 0] by simp

lemma uint_same: "uint a = uint b \<longleftrightarrow> a = (b::32 word)"
  by (auto intro: unsigned_word_eqI)

lemma uint_of_sint: "uint (w::32 word) = (if sint w < 0 then sint w + 2 ^ 32 else sint w)"
proof -
  have b: "- (2 ^ 31) \<le> sint w" "sint w < 2 ^ 31"
    using sint_ge [of w] sint_lt [of w] by simp_all
  have u: "uint w = sint w mod 2 ^ 32"
    by (simp add: uint_sint take_bit_eq_mod)
  show ?thesis
  proof (cases "sint w < 0")
    case True
    have "sint w mod 2 ^ 32 = (sint w + 2 ^ 32) mod 2 ^ 32" by simp
    also have "\<dots> = sint w + 2 ^ 32" using b True by (intro mod_pos_pos_trivial) simp_all
    finally show ?thesis using True u by simp
  next
    case False
    then have "sint w mod 2 ^ 32 = sint w" using b by (intro mod_pos_pos_trivial) simp_all
    then show ?thesis using False u by simp
  qed
qed

subsection \<open>The order of memrange_cmp\<close>

text \<open>
  Claim C10.  \<open>memrange_cmp\<close> orders records by \<open>type\<close> first and by \<open>start\<close> second; it
  answers 0 exactly when both agree, and it is antisymmetric.  Within class 0 the starts
  are read unsigned, within every other class signed.  Hence a negative offset comes
  before a non-negative one exactly in the classes other than 0: in class 0 the same
  bit pattern is a large address and comes after.
\<close>

theorem memrange_cmp_order:
  "(memrange_cmp a b < 0 \<longleftrightarrow>
      sint (mr_type a) < sint (mr_type b) \<or>
      (mr_type a = mr_type b \<and>
       (if mr_type a = 0 then uint (mr_start a) < uint (mr_start b)
        else sint (mr_start a) < sint (mr_start b)))) \<and>
   (memrange_cmp a b = 0 \<longleftrightarrow> mr_type a = mr_type b \<and> mr_start a = mr_start b) \<and>
   (0 < memrange_cmp a b \<longleftrightarrow> memrange_cmp b a < 0) \<and>
   (sint neg < 0 \<and> 0 \<le> sint pos \<longrightarrow>
      (memrange_cmp \<lparr>mr_type = k, mr_start = neg, mr_end = e1\<rparr>
                    \<lparr>mr_type = k, mr_start = pos, mr_end = e2\<rparr> < 0 \<longleftrightarrow> k \<noteq> 0))"
proof (intro conjI)
  show "memrange_cmp a b < 0 \<longleftrightarrow>
      sint (mr_type a) < sint (mr_type b) \<or>
      (mr_type a = mr_type b \<and>
       (if mr_type a = 0 then uint (mr_start a) < uint (mr_start b)
        else sint (mr_start a) < sint (mr_start b)))"
    by (auto simp add: memrange_cmp_def sint_same sint_zero)
  show "memrange_cmp a b = 0 \<longleftrightarrow> mr_type a = mr_type b \<and> mr_start a = mr_start b"
    by (auto simp add: memrange_cmp_def sint_same uint_same)
  show "0 < memrange_cmp a b \<longleftrightarrow> memrange_cmp b a < 0"
    by (auto simp add: memrange_cmp_def sint_same sint_zero)
  show "sint neg < 0 \<and> 0 \<le> sint pos \<longrightarrow>
      (memrange_cmp \<lparr>mr_type = k, mr_start = neg, mr_end = e1\<rparr>
                    \<lparr>mr_type = k, mr_start = pos, mr_end = e2\<rparr> < 0 \<longleftrightarrow> k \<noteq> 0)"
    using sint_lt [of pos] sint_ge [of neg]
    by (auto simp add: memrange_cmp_def uint_of_sint)
qed

theorem memrange_cmp_order_witness:
  "sint (- 8 :: 32 word) < 0 \<and> 0 \<le> sint (8 :: 32 word) \<and>
   memrange_cmp \<lparr>mr_type = 5, mr_start = - 8, mr_end = - 4\<rparr>
                \<lparr>mr_type = 5, mr_start = 8, mr_end = 12\<rparr> < 0 \<and>
   \<not> memrange_cmp \<lparr>mr_type = 0, mr_start = - 8, mr_end = - 4\<rparr>
                  \<lparr>mr_type = 0, mr_start = 8, mr_end = 12\<rparr> < 0"
  using memrange_cmp_order [of _ _ "- 8" 8 5 "- 4" 12]
    memrange_cmp_order [of _ _ "- 8" 8 0 "- 4" 12]
  by simp

subsection \<open>The merging pass\<close>

lemma merge_loop_apart:
  "merge_loop M xs a b = (ys, k) \<Longrightarrow> a < b \<Longrightarrow> b \<le> length xs \<Longrightarrow>
   (\<forall>i<a. apart M (xs ! i) (xs ! Suc i)) \<Longrightarrow>
   (\<forall>i<k. apart M (ys ! i) (ys ! Suc i)) \<and> k < length ys"
proof (induction M xs a b arbitrary: ys k rule: merge_loop.induct)
  case (1 M xs a b)
  show ?case
  proof (cases "b < length xs")
    case False
    with "1.prems" show ?thesis by (simp add: merge_loop.simps [of M xs a b])
  next
    case lt: True
    show ?thesis
    proof (cases "mergeable M (xs ! a) (xs ! b)")
      case True
      let ?xs = "xs[a := (xs ! a)\<lparr>mr_end := mr_end (xs ! b)\<rparr>]"
      have "merge_loop M xs a b = merge_loop M ?xs a (b + 1)"
        by (subst merge_loop.simps) (simp only: lt True if_True)
      with "1.prems"(1) have run: "merge_loop M ?xs a (b + 1) = (ys, k)" by simp
      have keep: "\<forall>i<a. apart M (?xs ! i) (?xs ! Suc i)"
      proof (intro allI impI)
        fix i assume i: "i < a"
        with "1.prems" have ap: "apart M (xs ! i) (xs ! Suc i)" by simp
        show "apart M (?xs ! i) (?xs ! Suc i)"
        proof (cases "Suc i = a")
          case True
          with i lt "1.prems" ap show ?thesis by (simp add: apart_def)
        next
          case False
          with i ap show ?thesis by simp
        qed
      qed
      from "1.IH"(1) [OF lt True run] "1.prems" lt keep show ?thesis by simp
    next
      case False
      let ?xs = "if a + 1 \<noteq> b then xs[a + 1 := xs ! b] else xs"
      have "merge_loop M xs a b = merge_loop M ?xs (a + 1) (b + 1)"
        by (subst merge_loop.simps) (simp only: lt False if_True if_False)
      with "1.prems"(1) have run: "merge_loop M ?xs (a + 1) (b + 1) = (ys, k)" by simp
      have len: "length ?xs = length xs" by simp
      have at: "?xs ! Suc a = xs ! b" using "1.prems" lt by auto
      have below: "\<And>i. i \<le> a \<Longrightarrow> ?xs ! i = xs ! i" by auto
      have keep: "\<forall>i<a + 1. apart M (?xs ! i) (?xs ! Suc i)"
      proof (intro allI impI)
        fix i assume i: "i < a + 1"
        show "apart M (?xs ! i) (?xs ! Suc i)"
        proof (cases "i = a")
          case True
          with False at below [of a] show ?thesis
            by (auto simp add: apart_def mergeable_def)
        next
          case False
          with i have "i < a" by simp
          with "1.prems" below [of i] below [of "Suc i"] show ?thesis by simp
        qed
      qed
      from "1.IH"(2) [OF lt False run] "1.prems" lt keep len show ?thesis by simp
    qed
  qed
qed

lemma sortmerge_apart:
  "Suc i < length (memranges (memrange_sortmerge M qs c)) \<Longrightarrow>
   apart M (memranges (memrange_sortmerge M qs c) ! i)
           (memranges (memrange_sortmerge M qs c) ! Suc i)"
proof -
  assume len: "Suc i < length (memranges (memrange_sortmerge M qs c))"
  let ?s = "qs memrange_cmp (memranges c)"
  show ?thesis
  proof (cases "0 < length ?s")
    case False
    with len show ?thesis by (simp add: memrange_sortmerge_def)
  next
    case True
    obtain ys k where run: "merge_loop M ?s 0 1 = (ys, k)" by (cases "merge_loop M ?s 0 1")
    from True have "1 \<le> length ?s" by (simp add: Suc_le_eq)
    with merge_loop_apart [OF run] have inv: "\<forall>i<k. apart M (ys ! i) (ys ! Suc i)" "k < length ys"
      by simp_all
    from True run have out: "memranges (memrange_sortmerge M qs c) = take (k + 1) ys"
      by (simp add: memrange_sortmerge_def)
    with len inv show ?thesis by simp
  qed
qed

text \<open>
  Claim C1.  After \<open>memrange_sortmerge\<close>, whatever sorting function \<^verbatim>\<open>qsort\<close> stands
  for, two neighbours of the list differ in \<open>type\<close> or lie more than
  \<^verbatim>\<open>MAX_REGISTER_VIRTUAL_SIZE\<close> apart (the difference being the one the code computes).
  Two records of one \<open>type\<close> that the sort leaves side by side become one record when
  their gap is exactly \<^verbatim>\<open>MAX_REGISTER_VIRTUAL_SIZE\<close> and stay two when it is one more.
\<close>

theorem memrange_sortmerge_gap:
  "(\<forall>i. Suc i < length (memranges (memrange_sortmerge M qs c)) \<longrightarrow>
      mr_type (memranges (memrange_sortmerge M qs c) ! i) \<noteq>
        mr_type (memranges (memrange_sortmerge M qs c) ! Suc i) \<or>
      M < sint (mr_start (memranges (memrange_sortmerge M qs c) ! Suc i) -
                mr_end (memranges (memrange_sortmerge M qs c) ! i))) \<and>
   (qs memrange_cmp [x, y] = [x, y] \<and> mr_type x = mr_type y \<and>
    sint (mr_start y - mr_end x) = M \<longrightarrow>
      memranges (memrange_sortmerge M qs (c\<lparr>memranges := [x, y]\<rparr>)) =
        [x\<lparr>mr_end := mr_end y\<rparr>]) \<and>
   (qs memrange_cmp [x, y] = [x, y] \<and> mr_type x = mr_type y \<and>
    sint (mr_start y - mr_end x) = M + 1 \<longrightarrow>
      memranges (memrange_sortmerge M qs (c\<lparr>memranges := [x, y]\<rparr>)) = [x, y])"
proof (intro conjI allI impI)
  fix i assume "Suc i < length (memranges (memrange_sortmerge M qs c))"
  from sortmerge_apart [OF this]
  show "mr_type (memranges (memrange_sortmerge M qs c) ! i) \<noteq>
        mr_type (memranges (memrange_sortmerge M qs c) ! Suc i) \<or>
      M < sint (mr_start (memranges (memrange_sortmerge M qs c) ! Suc i) -
                mr_end (memranges (memrange_sortmerge M qs c) ! i))"
    by (simp add: apart_def)
next
  assume "qs memrange_cmp [x, y] = [x, y] \<and> mr_type x = mr_type y \<and>
    sint (mr_start y - mr_end x) = M"
  then show "memranges (memrange_sortmerge M qs (c\<lparr>memranges := [x, y]\<rparr>)) =
      [x\<lparr>mr_end := mr_end y\<rparr>]"
    by (simp add: memrange_sortmerge_def merge_loop.simps mergeable_def)
next
  assume "qs memrange_cmp [x, y] = [x, y] \<and> mr_type x = mr_type y \<and>
    sint (mr_start y - mr_end x) = M + 1"
  then show "memranges (memrange_sortmerge M qs (c\<lparr>memranges := [x, y]\<rparr>)) = [x, y]"
    by (simp add: memrange_sortmerge_def merge_loop.simps mergeable_def)
qed

theorem memrange_sortmerge_gap_witness:
  "memranges (memrange_sortmerge 8 insertion_qsort
      \<lparr>regs_mask = [0, 0, 0, 0, 0, 0, 0, 0], memranges =
         [\<lparr>mr_type = 1, mr_start = 30, mr_end = 34\<rparr>,
          \<lparr>mr_type = 1, mr_start = 12, mr_end = 16\<rparr>,
          \<lparr>mr_type = 1, mr_start = 0, mr_end = 4\<rparr>,
          \<lparr>mr_type = 0, mr_start = 3, mr_end = 4\<rparr>]\<rparr>) =
     [\<lparr>mr_type = 0, mr_start = 3, mr_end = 4\<rparr>,
      \<lparr>mr_type = 1, mr_start = 0, mr_end = 16\<rparr>,
      \<lparr>mr_type = 1, mr_start = 30, mr_end = 34\<rparr>] \<and>
   (8::int) < sint ((30::32 word) - 16) \<and>
   memranges (memrange_sortmerge 8 insertion_qsort
      \<lparr>regs_mask = [0, 0, 0, 0, 0, 0, 0, 0], memranges =
         [\<lparr>mr_type = 1, mr_start = 0, mr_end = 4\<rparr>,
          \<lparr>mr_type = 1, mr_start = 12, mr_end = 16\<rparr>]\<rparr>) =
     [\<lparr>mr_type = 1, mr_start = 0, mr_end = 16\<rparr>] \<and>
   memranges (memrange_sortmerge 8 insertion_qsort
      \<lparr>regs_mask = [0, 0, 0, 0, 0, 0, 0, 0], memranges =
         [\<lparr>mr_type = 1, mr_start = 0, mr_end = 4\<rparr>,
          \<lparr>mr_type = 1, mr_start = 13, mr_end = 16\<rparr>]\<rparr>) =
     [\<lparr>mr_type = 1, mr_start = 0, mr_end = 4\<rparr>,
      \<lparr>mr_type = 1, mr_start = 13, mr_end = 16\<rparr>]"
  using memrange_sortmerge_gap [of 8 insertion_qsort
      "\<lparr>regs_mask = [0, 0, 0, 0, 0, 0, 0, 0], memranges =
         [\<lparr>mr_type = 1, mr_start = 30, mr_end = 34\<rparr>,
          \<lparr>mr_type = 1, mr_start = 12, mr_end = 16\<rparr>,
          \<lparr>mr_type = 1, mr_start = 0, mr_end = 4\<rparr>,
          \<lparr>mr_type = 0, mr_start = 3, mr_end = 4\<rparr>]\<rparr>"
      "\<lparr>mr_type = 1, mr_start = 0, mr_end = 4\<rparr>"
      "\<lparr>mr_type = 1, mr_start = 12, mr_end = 16\<rparr>"]
    memrange_sortmerge_gap [of 7 insertion_qsort
      "\<lparr>regs_mask = [0, 0, 0, 0, 0, 0, 0, 0], memranges = []\<rparr>"
      "\<lparr>mr_type = 1, mr_start = 0, mr_end = 4\<rparr>"
      "\<lparr>mr_type = 1, mr_start = 12, mr_end = 16\<rparr>"]
  by (simp add: memrange_sortmerge_def insertion_qsort_def memrange_cmp_def
      merge_loop.simps mergeable_def)


subsection \<open>Running the formatting loops\<close>

lemma hex_of_nat_small: "n < 16 \<Longrightarrow> hex_of_nat d n = [d n]"
  by (simp add: hex_of_nat.simps)

lemma hex_of_nat_large:
  "\<not> n < 16 \<Longrightarrow> hex_of_nat d n = hex_of_nat d (n div 16) @ [d (n mod 16)]"
  by (subst hex_of_nat.simps) simp

lemma skip_zeroes_pos:
  "0 < i \<Longrightarrow> skip_zeroes regs i = (if regs ! i \<noteq> 0 then i else skip_zeroes regs (i - 1))"
  by (subst skip_zeroes.simps) simp

lemma emit_mask_pos: "0 < i \<Longrightarrow> emit_mask regs i = fmt_02X (regs ! i) @ emit_mask regs (i - 1)"
  by (subst emit_mask.simps) simp

lemma skip_zeroes_0: "skip_zeroes regs 0 = 0"
  by (simp add: skip_zeroes.simps)

lemma skip_zeroes_Suc:
  "skip_zeroes regs (Suc i) = (if regs ! Suc i \<noteq> 0 then Suc i else skip_zeroes regs i)"
  by (simp add: skip_zeroes.simps [of regs "Suc i"])

lemma emit_mask_0: "emit_mask regs 0 = fmt_02X (regs ! 0)"
  by (simp add: emit_mask.simps)

lemma emit_mask_Suc: "emit_mask regs (Suc i) = fmt_02X (regs ! Suc i) @ emit_mask regs i"
  by (simp add: emit_mask.simps [of regs "Suc i"])

lemma zero_mask: "replicate sizeof_regs_mask (0::byte) = [0, 0, 0, 0, 0, 0, 0, 0]"
  by (simp add: sizeof_regs_mask_def eval_nat_numeral)

lemma skip_zeroes_spec:
  "skip_zeroes regs n \<le> n \<and>
   (\<forall>j. skip_zeroes regs n < j \<and> j \<le> n \<longrightarrow> regs ! j = 0) \<and>
   (regs ! skip_zeroes regs n = 0 \<longrightarrow> skip_zeroes regs n = 0)"
proof (induction n)
  case 0
  show ?case by (simp add: skip_zeroes_0)
next
  case (Suc n)
  show ?case
  proof (cases "regs ! Suc n \<noteq> 0")
    case True
    then show ?thesis by (auto simp add: skip_zeroes_Suc)
  next
    case False
    with Suc show ?thesis by (auto simp add: le_Suc_eq skip_zeroes_Suc)
  qed
qed

lemma emit_mask_rev:
  "i < length regs \<Longrightarrow> emit_mask regs i = concat (map fmt_02X (rev (take (Suc i) regs)))"
proof (induction i)
  case 0
  then show ?case by (cases regs) (simp_all add: emit_mask_0)
next
  case (Suc i)
  then show ?case by (simp add: take_Suc_conv_app_nth [of "Suc i"] emit_mask_Suc)
qed

lemma emit_memranges_concat: "emit_memranges ms = concat (map memrange_text ms)"
  by (induction ms) (simp_all add: memrange_text_def)

lemma trimmed_take:
  assumes i: "i < length regs" and nz: "regs ! i \<noteq> 0"
    and above: "\<forall>j. i < j \<and> j < length regs \<longrightarrow> regs ! j = 0"
  shows "trimmed regs = take (Suc i) regs"
proof -
  have zeros: "\<And>x. x \<in> set (rev (drop (Suc i) regs)) \<Longrightarrow> x = 0"
    using above by (auto simp add: in_set_conv_nth)
  have "rev regs = rev (drop (Suc i) regs) @ rev (take (Suc i) regs)"
    by (simp flip: rev_append)
  moreover have "dropWhile (\<lambda>b. b = 0) (rev (drop (Suc i) regs) @ rev (take (Suc i) regs)) =
      dropWhile (\<lambda>b. b = 0) (rev (take (Suc i) regs))"
    by (rule dropWhile_append2) (use zeros in blast)
  ultimately have "dropWhile (\<lambda>b. b = 0) (rev regs) =
      dropWhile (\<lambda>b. b = 0) (rev (take (Suc i) regs))"
    by simp
  also have "\<dots> = rev (take (Suc i) regs)"
    using i nz by (simp add: take_Suc_conv_app_nth)
  finally show ?thesis by (simp add: trimmed_def)
qed

lemma fmt_02X_length: "length (fmt_02X b) = 2"
  by (simp add: fmt_02X_def)


lemmas run_stringify = stringify_collection_list_def sizeof_regs_mask_def fmt_02X_def fmt_X_def
  fmt_x_def upper_digit_def lower_digit_def hex_of_nat_small hex_of_nat_large skip_zeroes_0
  skip_zeroes_pos emit_mask_0 emit_mask_pos Let_def

lemma upper_digit_hex: "d < 16 \<Longrightarrow> upper_digit d \<in> set ''0123456789ABCDEF''"
  unfolding upper_digit_def by (rule nth_mem) simp

lemma hex_of_nat_upper:
  "hex_of_nat upper_digit n \<noteq> [] \<and> set (hex_of_nat upper_digit n) \<subseteq> set ''0123456789ABCDEF''"
proof (induction upper_digit n rule: hex_of_nat.induct)
  case (1 n)
  show ?case
  proof (cases "n < 16")
    case True
    with upper_digit_hex [of n] show ?thesis by (simp add: hex_of_nat_small)
  next
    case False
    with "1" upper_digit_hex [of "n mod 16"] show ?thesis by (simp add: hex_of_nat_large)
  qed
qed

lemma fmt_02X_upper: "set (fmt_02X b) \<subseteq> set ''0123456789ABCDEF''"
proof -
  have "unat b < 256" using unsigned_less [of b] by simp
  then have "unat b div 16 < 16" by simp
  with upper_digit_hex [of "unat b div 16"] upper_digit_hex [of "unat b mod 16"]
  show ?thesis by (simp add: fmt_02X_def)
qed

subsection \<open>stringify_collection_list\<close>

text \<open>
  Claim C2.  On a list whose bitmap has its eight bytes, \<open>stringify_collection_list\<close>
  returns what the specification describes (\<open>stringify_spec\<close>): nothing when the
  bitmap is all-zero and there is no memrange; otherwise \<open>R\<close> and the bytes of the
  bitmap from the highest non-zero one down to byte 0 when the bitmap is not all-zero,
  followed by \<open>M\<close>type\<open>,\<close>start\<open>,\<close>length for every memrange, the length being
  \<open>end - start\<close>.  A byte is written as two hexadecimal digits, every other number as
  one or more hexadecimal digits and nothing else.
\<close>

theorem stringify_collection_list_spec:
  "(length (regs_mask c) = sizeof_regs_mask \<longrightarrow>
      stringify_collection_list c = stringify_spec c) \<and>
   length (fmt_02X b) = 2 \<and> set (fmt_02X b) \<subseteq> set ''0123456789ABCDEF'' \<and>
   fmt_X w \<noteq> [] \<and> set (fmt_X w) \<subseteq> set ''0123456789ABCDEF''"
proof (intro conjI impI)
  assume "length (regs_mask c) = sizeof_regs_mask"
  then have len: "length (regs_mask c) = 8" by (simp add: sizeof_regs_mask_def)
  show "stringify_collection_list c = stringify_spec c"
  proof -
    let ?regs = "regs_mask c"
    let ?i = "skip_zeroes ?regs 7"
    from skip_zeroes_spec [of ?regs 7]
    have le: "?i \<le> 7" and above: "\<forall>j. ?i < j \<and> j \<le> 7 \<longrightarrow> ?regs ! j = 0"
      and zero: "?regs ! ?i = 0 \<longrightarrow> ?i = 0" by simp_all
    have ms: "emit_memranges (memranges c) = [] \<longleftrightarrow> memranges c = []"
      by (cases "memranges c") simp_all
    show ?thesis
    proof (cases "?regs ! ?i = 0")
      case True
      with zero have i0: "?i = 0" by simp
      have "\<forall>b \<in> set ?regs. b = 0"
      proof
        fix b assume "b \<in> set ?regs"
        then obtain j where j: "j < 8" "b = ?regs ! j" using len by (auto simp add: in_set_conv_nth)
        show "b = 0"
        proof (cases "j = 0")
          case True with j i0 \<open>?regs ! ?i = 0\<close> show ?thesis by simp
        next
          case False with j above i0 show ?thesis by simp
        qed
      qed
      with True ms show ?thesis
        by (auto simp add: stringify_collection_list_def stringify_spec_def sizeof_regs_mask_def
            emit_memranges_concat)
    next
      case False
      from le len have il: "?i < length ?regs" by simp
      from False nth_mem [OF il] have ex: "\<exists>b \<in> set ?regs. b \<noteq> 0" by blast
      from above len have "\<forall>j. ?i < j \<and> j < length ?regs \<longrightarrow> ?regs ! j = 0" by simp
      from trimmed_take [OF il False this] have tr: "trimmed ?regs = take (Suc ?i) ?regs" .
      from False ex tr emit_mask_rev [OF il] show ?thesis
        by (simp add: stringify_collection_list_def stringify_spec_def sizeof_regs_mask_def
            emit_memranges_concat)
    qed
  qed
next
  show "length (fmt_02X b) = 2" by (rule fmt_02X_length)
  show "set (fmt_02X b) \<subseteq> set ''0123456789ABCDEF''" by (rule fmt_02X_upper)
  show "fmt_X w \<noteq> []" using hex_of_nat_upper [of "unat w"] by (simp add: fmt_X_def)
  show "set (fmt_X w) \<subseteq> set ''0123456789ABCDEF''"
    using hex_of_nat_upper [of "unat w"] by (simp add: fmt_X_def)
qed

theorem stringify_collection_list_spec_witness:
  "length (regs_mask \<lparr>regs_mask = [1, 0, 0x80, 0, 0, 0, 0, 0], memranges =
       [\<lparr>mr_type = 30, mr_start = - 8, mr_end = 0\<rparr>]\<rparr>) = sizeof_regs_mask \<and>
   stringify_spec \<lparr>regs_mask = [1, 0, 0x80, 0, 0, 0, 0, 0], memranges =
       [\<lparr>mr_type = 30, mr_start = - 8, mr_end = 0\<rparr>]\<rparr> = Some ''R800001M1E,FFFFFFF8,8''"
  using stringify_collection_list_spec
    [of "\<lparr>regs_mask = [1, 0, 0x80, 0, 0, 0, 0, 0], memranges =
       [\<lparr>mr_type = 30, mr_start = - 8, mr_end = 0\<rparr>]\<rparr>"]
  by (simp add: run_stringify)

subsection \<open>The guard of add_register\<close>

text \<open>
  Claim C3.  The bitmap has room for the registers 0 to 63.  Register 63 is accepted
  and its bit is set; register 65 is refused; register 64, the capacity itself, is not
  refused: the call returns and the bitmap is as it was before.
\<close>

theorem add_register_at_capacity:
  "add_register (clear_collection_list c) 64 = Inr (clear_collection_list c) \<and>
   add_register (clear_collection_list c) 65 = Inl (Register_Too_Large 65) \<and>
   add_register (clear_collection_list c) 63 =
     Inr (c\<lparr>memranges := [], regs_mask := [0, 0, 0, 0, 0, 0, 0, 0x80]\<rparr>) \<and>
   reg_bit (c\<lparr>memranges := [], regs_mask := [0, 0, 0, 0, 0, 0, 0, 0x80]\<rparr>) 63"
proof (intro conjI)
  show "add_register (clear_collection_list c) 64 = Inr (clear_collection_list c)"
    by (simp add: add_register_def sizeof_regs_mask_def)
  show "add_register (clear_collection_list c) 65 = Inl (Register_Too_Large 65)"
    by (simp add: add_register_def sizeof_regs_mask_def)
  show "add_register (clear_collection_list c) 63 =
     Inr (c\<lparr>memranges := [], regs_mask := [0, 0, 0, 0, 0, 0, 0, 0x80]\<rparr>)"
    by (simp add: add_register_def clear_collection_list_def zero_mask)
      (simp add: sizeof_regs_mask_def)
  show "reg_bit (c\<lparr>memranges := [], regs_mask := [0, 0, 0, 0, 0, 0, 0, 0x80]\<rparr>) 63"
    by (simp add: reg_bit_def)
qed

subsection \<open>Base registers of the memranges\<close>

text \<open>
  Claim C4.  From the initial list, clearing and then adding a memrange relative to
  register 64 returns normally; the list it leaves holds a record of type 64, and the
  bitmap, all zero, has no bit for it.
\<close>

theorem add_memrange_base_register_64:
  "add_memrange (clear_collection_list initial_list) 64 0 4 =
     Inr \<lparr>regs_mask = [0, 0, 0, 0, 0, 0, 0, 0],
          memranges = [\<lparr>mr_type = 64, mr_start = 0, mr_end = 4\<rparr>]\<rparr> \<and>
   reachable M qs \<lparr>regs_mask = [0, 0, 0, 0, 0, 0, 0, 0],
          memranges = [\<lparr>mr_type = 64, mr_start = 0, mr_end = 4\<rparr>]\<rparr> \<and>
   0 < sint (64 :: c_int) \<and>
   \<not> reg_bit \<lparr>regs_mask = [0, 0, 0, 0, 0, 0, 0, 0],
          memranges = [\<lparr>mr_type = 64, mr_start = 0, mr_end = 4\<rparr>]\<rparr> 64"
proof -
  have run: "add_memrange (clear_collection_list initial_list) 64 0 4 =
     Inr \<lparr>regs_mask = [0, 0, 0, 0, 0, 0, 0, 0],
          memranges = [\<lparr>mr_type = 64, mr_start = 0, mr_end = 4\<rparr>]\<rparr>"
    by (simp add: add_memrange_def add_register_def clear_collection_list_def initial_list_def
        zero_mask) (simp add: sizeof_regs_mask_def)
  have "reachable M qs (clear_collection_list initial_list)"
    by (intro reachable.clear reachable.start)
  from reachable.memrange [OF this run] run show ?thesis
    by (simp add: reg_bit_def)
qed


section \<open>Properties of the action validator\<close>

lemmas run_strings = isspace_def tolower_def strncasecmp_def strchr_def digit_value_def
  is_digit_of_def number_start_def scan_number_def strtol_def strtoul_def Let_def

text \<open>
  Claim C8.  A tracepoint that steps 5 instructions is being edited, and the line
  \<^verbatim>\<open>while-stepping 0\<close> is validated.  The answer is \<open>BADLINE\<close>, and the tracepoint comes
  back with a step count of 0: the count is stored before it is tested.  An empty line
  and an unknown action are \<open>BADLINE\<close> too, and leave the tracepoint as it was.
\<close>

theorem validate_actionline_zero_steps:
  "validate_actionline cb ''while-stepping 0'' (t\<lparr>step_count := 5\<rparr>) =
     Inr (BADLINE, t\<lparr>step_count := 0\<rparr>) \<and>
   step_count (t\<lparr>step_count := 0\<rparr>) \<noteq> step_count (t\<lparr>step_count := 5\<rparr>) \<and>
   validate_actionline cb [] (t\<lparr>step_count := 5\<rparr>) = Inr (BADLINE, t\<lparr>step_count := 5\<rparr>) \<and>
   validate_actionline cb ''teleport'' (t\<lparr>step_count := 5\<rparr>) =
     Inr (BADLINE, t\<lparr>step_count := 5\<rparr>)"
  by (simp add: validate_actionline_def run_strings)


section \<open>Properties of the registry\<close>

subsection \<open>The source file of a new tracepoint\<close>

lemma c_string_take: "take (length (c_string buf)) buf = c_string buf"
  unfolding c_string_def by (rule takeWhile_eq_take [symmetric])

lemma c_string_no_NUL: "NUL \<notin> set (c_string buf)"
  unfolding c_string_def by (auto dest: set_takeWhileD)

lemma c_string_terminated: "NUL \<notin> set s \<Longrightarrow> c_string (s @ NUL # rest) = s"
  by (induction s) (auto simp add: c_string_def)

lemma c_string_strcpy: "NUL \<notin> set src \<Longrightarrow> c_string (c_strcpy buf src) = src"
  by (simp add: c_strcpy_def c_string_terminated)

lemma c_string_strcat:
  assumes "NUL \<notin> set src"
  shows "c_string (c_strcat buf src) = c_string buf @ src"
proof -
  have "c_strcat buf src =
      (c_string buf @ src) @ NUL # drop (length (c_string buf) + length src + 1) buf"
    by (simp add: c_strcat_def c_string_take)
  moreover have "NUL \<notin> set (c_string buf @ src)" using assms c_string_no_NUL by simp
  ultimately show ?thesis using c_string_terminated by metis
qed

lemma make_source_file_eq:
  assumes nd: "NUL \<notin> set dir" and nf: "NUL \<notin> set file"
  shows "make_source_file fresh dir file =
    dir @ (if fresh (length dir + 1) \<noteq> CHR ''/'' then ''/'' else []) @ file"
proof -
  let ?buf0 = "map fresh [0 ..< length file + length dir + 2]"
  let ?buf1 = "c_strcpy ?buf0 dir"
  have s1: "c_string ?buf1 = dir" using nd by (rule c_string_strcpy)
  have "?buf1 ! (length dir + 1) = drop (length dir + 1) ?buf0 ! 0"
    by (simp add: c_strcpy_def nth_append)
  also have "\<dots> = fresh (length dir + 1)" by (simp del: upt_Suc)
  finally have byte: "?buf1 ! (length dir + 1) = fresh (length dir + 1)" .
  have slash: "NUL \<notin> set ''/''" by (simp add: NUL_def)
  show ?thesis
  proof (cases "fresh (length dir + 1) \<noteq> CHR ''/''")
    case True
    with byte s1 c_string_strcat [OF nf, of "c_strcat ?buf1 ''/''"]
      c_string_strcat [OF slash, of ?buf1]
    show ?thesis by (simp add: make_source_file_def Let_def)
  next
    case False
    with byte s1 c_string_strcat [OF nf, of ?buf1]
    show ?thesis by (simp add: make_source_file_def Let_def)
  qed
qed

text \<open>
  Claim C9.  With the directory \<^verbatim>\<open>/usr/src/\<close>, which ends in a separator, and a fresh
  block of zero bytes, the source file of the new tracepoint is \<^verbatim>\<open>/usr/src//a.c\<close>: a
  second separator is put in.  With the directory \<^verbatim>\<open>/usr/src\<close> and a fresh block that
  happens to hold \<open>/\<close>, it is \<^verbatim>\<open>/usr/srca.c\<close>: no separator at all.  The byte the code
  tests lies behind the terminator of the copied directory name, not before it.
\<close>

theorem source_file_separator:
  "set_raw_tracepoint (cb\<lparr>fresh_block := (\<lambda>offset. NUL)\<rparr>)
      \<lparr>sal_symtab = Some \<lparr>filename = Some ''a.c'', dirname = Some ''/usr/src/''\<rparr>,
       sal_line = 7, sal_pc = 0x4010c0\<rparr> st =
     Inr (st\<lparr>tracepoint_chain := tracepoint_chain st @
            [\<lparr>number = 0, address = 0x4010c0, source_file = Some ''/usr/src//a.c'',
              line_number = 7, tp_enabled = enabled, step_count = 0, pass_count = 0,
              addr_string = None, cond_string = None, language = current_language cb,
              input_radix = current_input_radix cb, actions = []\<rparr>]\<rparr>) \<and>
   set_raw_tracepoint (cb\<lparr>fresh_block := (\<lambda>offset. CHR ''/'')\<rparr>)
      \<lparr>sal_symtab = Some \<lparr>filename = Some ''a.c'', dirname = Some ''/usr/src''\<rparr>,
       sal_line = 7, sal_pc = 0x4010c0\<rparr> st =
     Inr (st\<lparr>tracepoint_chain := tracepoint_chain st @
            [\<lparr>number = 0, address = 0x4010c0, source_file = Some ''/usr/srca.c'',
              line_number = 7, tp_enabled = enabled, step_count = 0, pass_count = 0,
              addr_string = None, cond_string = None, language = current_language cb,
              input_radix = current_input_radix cb, actions = []\<rparr>]\<rparr>)"
proof -
  have a: "make_source_file (\<lambda>offset. NUL) ''/usr/src/'' ''a.c'' = ''/usr/src//a.c''"
    by (subst make_source_file_eq) (simp_all add: NUL_def)
  have b: "make_source_file (\<lambda>offset. CHR ''/'') ''/usr/src'' ''a.c'' = ''/usr/srca.c''"
    by (subst make_source_file_eq) (simp_all add: NUL_def)
  show ?thesis by (simp add: set_raw_tracepoint_def a b)
qed


subsection \<open>Numbering\<close>

lemma sint_succ: "sint (w::32 word) < 2 ^ 31 - 1 \<Longrightarrow> sint (w + 1) = sint w + 1"
proof -
  assume a: "sint w < 2 ^ 31 - 1"
  have "- (2 ^ 31) \<le> sint w" using sint_ge [of w] by simp
  with a have "signed_take_bit 31 (sint w + 1) = sint w + 1"
    by (intro signed_take_bit_int_eq_self) simp_all
  then show ?thesis by (simp add: sint_word_ariths)
qed

lemma create_tracepoint_chain:
  assumes "create_tracepoint cb addr canonical sal st = Inr st'"
  shows "\<exists>t. tracepoint_chain st' = tracepoint_chain st @ [t] \<and>
    number t = tracepoint_count st + 1 \<and> tracepoint_count st' = tracepoint_count st + 1"
  using assms
  by (auto simp add: create_tracepoint_def set_raw_tracepoint_def set_tracepoint_count_def
      set_internalvar_def Let_def split: sum.splits option.splits)

lemma ordered_numbers:
  "chain_ordered st \<longleftrightarrow>
   sorted_wrt (\<lambda>a b. sint a < sint b) (map number (tracepoint_chain st))"
  by (simp add: chain_ordered_def sorted_wrt_map)

lemma covers_numbers:
  "count_covers st \<longleftrightarrow>
   (\<forall>n \<in> set (map number (tracepoint_chain st)). sint n \<le> sint (tracepoint_count st))"
  by (auto simp add: count_covers_def list_all_iff)

lemma same_numbers:
  assumes "map number (tracepoint_chain st') = map number (tracepoint_chain st)"
    and "tracepoint_count st' = tracepoint_count st"
  shows "chain_ordered st' = chain_ordered st" and "count_covers st' = count_covers st"
  using assms by (simp_all add: ordered_numbers covers_numbers)

lemma create_tracepoint_ok:
  assumes run: "create_tracepoint cb addr canonical sal st = Inr st'"
    and ord: "chain_ordered st" and cov: "count_covers st"
    and room: "sint (tracepoint_count st) < 2 ^ 31 - 1"
  shows "chain_ordered st' \<and> count_covers st' \<and>
    sint (tracepoint_count st') = sint (tracepoint_count st) + 1"
proof -
  from create_tracepoint_chain [OF run] obtain t where
    chain: "tracepoint_chain st' = tracepoint_chain st @ [t]" and
    num: "number t = tracepoint_count st + 1" and
    cnt: "tracepoint_count st' = tracepoint_count st + 1" by blast
  from sint_succ [OF room] have up: "sint (tracepoint_count st + 1) = sint (tracepoint_count st) + 1" .
  from ord cov chain num up have "chain_ordered st'"
    by (auto simp add: chain_ordered_def count_covers_def sorted_wrt_append list_all_iff)
  moreover from cov chain num cnt up have "count_covers st'"
    by (auto simp add: count_covers_def list_all_iff)
  ultimately show ?thesis using cnt up by simp
qed

lemma create_tracepoints_ok:
  "create_tracepoints cb addr canonical i sals st = (r, st') \<Longrightarrow>
   chain_ordered st \<Longrightarrow> count_covers st \<Longrightarrow>
   sint (tracepoint_count st) + int (length sals) < 2 ^ 31 \<Longrightarrow>
   chain_ordered st' \<and> count_covers st' \<and>
   sint (tracepoint_count st) \<le> sint (tracepoint_count st')"
proof (induction sals arbitrary: i st)
  case Nil
  then show ?case by simp
next
  case (Cons sal sals)
  let ?c = "case canonical of None \<Rightarrow> None | Some cs \<Rightarrow> if i < length cs then cs ! i else None"
  show ?case
  proof (cases "create_tracepoint cb addr ?c sal st")
    case (Inl e)
    with Cons.prems show ?thesis by simp
  next
    case (Inr st1)
    from Cons.prems(4) have room: "sint (tracepoint_count st) < 2 ^ 31 - 1" by simp
    from create_tracepoint_ok [OF Inr Cons.prems(2,3) room]
    have ok1: "chain_ordered st1" "count_covers st1"
      and cnt: "sint (tracepoint_count st1) = sint (tracepoint_count st) + 1" by simp_all
    from Inr Cons.prems(1) have run: "create_tracepoints cb addr canonical (i + 1) sals st1 = (r, st')"
      by simp
    from cnt Cons.prems(4) have "sint (tracepoint_count st1) + int (length sals) < 2 ^ 31" by simp
    from Cons.IH [OF run ok1 this] cnt show ?thesis by simp
  qed
qed

lemma trace_command_ok:
  assumes ord: "chain_ordered st" and cov: "count_covers st"
    and room: "sint (tracepoint_count st) + int (pending_locations cb arg) < 2 ^ 31"
  shows "chain_ordered (snd (trace_command cb arg st)) \<and>
    count_covers (snd (trace_command cb arg st)) \<and>
    sint (tracepoint_count st) \<le> sint (tracepoint_count (snd (trace_command cb arg st)))"
proof (cases "\<exists>line sals canonical n. arg = Some line \<and> line \<noteq> [] \<and> hd line \<noteq> CHR ''/'' \<and>
    decode_line_1 cb line = Inr (sals, canonical, n)")
  case True
  then obtain line sals canonical n where arg: "arg = Some line" "line \<noteq> []" "hd line \<noteq> CHR ''/''"
    and dec: "decode_line_1 cb line = Inr (sals, canonical, n)" by blast
  from arg dec have tc: "trace_command cb arg st =
      create_tracepoints cb (take n line) canonical 0 sals st"
    by (cases line) (simp_all add: trace_command_def)
  from arg dec room have "sint (tracepoint_count st) + int (length sals) < 2 ^ 31"
    by (simp add: pending_locations_def)
  from create_tracepoints_ok [OF _ ord cov this, of cb "take n line" canonical 0
      "fst (trace_command cb arg st)" "snd (trace_command cb arg st)"] tc
  show ?thesis by simp
next
  case False
  then have "snd (trace_command cb arg st) = st"
    by (auto simp add: trace_command_def split: option.splits list.splits sum.splits)
  with ord cov show ?thesis by simp
qed

lemma sorted_wrt_delete: "sorted_wrt P xs \<Longrightarrow> sorted_wrt P (take i xs @ drop (Suc i) xs)"
proof (cases "i < length xs")
  case True
  assume s: "sorted_wrt P xs"
  from True have "xs = take i xs @ xs ! i # drop (Suc i) xs" by (simp add: id_take_nth_drop)
  with s have "sorted_wrt P (take i xs @ xs ! i # drop (Suc i) xs)" by simp
  then show ?thesis by (auto simp add: sorted_wrt_append)
next
  case False
  assume "sorted_wrt P xs"
  with False show ?thesis by simp
qed

lemma tracepoint_operation_ok:
  assumes ord: "chain_ordered st" and cov: "count_covers st"
  shows "chain_ordered (tracepoint_operation i opcode st) \<and>
    count_covers (tracepoint_operation i opcode st) \<and>
    tracepoint_count (tracepoint_operation i opcode st) = tracepoint_count st"
proof (cases opcode)
  case enable
  have "map number (tracepoint_chain (tracepoint_operation i enable st)) =
      map number (tracepoint_chain st)"
    by (cases "i < length (tracepoint_chain st)")
      (simp_all add: tracepoint_operation_def map_update list_update_same_conv list_update_beyond)
  from same_numbers [OF this] ord cov enable show ?thesis
    by (simp add: tracepoint_operation_def)
next
  case disable
  have "map number (tracepoint_chain (tracepoint_operation i disable st)) =
      map number (tracepoint_chain st)"
    by (cases "i < length (tracepoint_chain st)")
      (simp_all add: tracepoint_operation_def map_update list_update_same_conv list_update_beyond)
  from same_numbers [OF this] ord cov disable show ?thesis
    by (simp add: tracepoint_operation_def)
next
  case delete
  have sub: "set (take i (tracepoint_chain st) @ drop (Suc i) (tracepoint_chain st)) \<subseteq>
      set (tracepoint_chain st)"
    using set_take_subset [of i "tracepoint_chain st"]
      set_drop_subset [of "Suc i" "tracepoint_chain st"] by auto
  from ord have "chain_ordered (tracepoint_operation i delete st)"
    by (simp add: chain_ordered_def tracepoint_operation_def sorted_wrt_delete)
  moreover from cov sub have "count_covers (tracepoint_operation i delete st)"
    by (auto simp add: count_covers_def tracepoint_operation_def list_all_iff)
  ultimately show ?thesis using delete by (simp add: tracepoint_operation_def)
qed

lemma operate_on_all_ok:
  "chain_ordered st \<Longrightarrow> count_covers st \<Longrightarrow>
   chain_ordered (snd (operate_on_all opcode i n st)) \<and>
   count_covers (snd (operate_on_all opcode i n st)) \<and>
   tracepoint_count (snd (operate_on_all opcode i n st)) = tracepoint_count st"
proof (induction n arbitrary: i st)
  case 0
  then show ?case by simp
next
  case (Suc n)
  from tracepoint_operation_ok [OF Suc.prems, of i opcode]
  have a: "chain_ordered (tracepoint_operation i opcode st)"
    "count_covers (tracepoint_operation i opcode st)"
    "tracepoint_count (tracepoint_operation i opcode st) = tracepoint_count st" by simp_all
  show ?case
  proof (cases "opcode = delete")
    case True
    with a show ?thesis by simp
  next
    case False
    with Suc.IH [OF a(1,2), of "i + 1"] a(3) show ?thesis by simp
  qed
qed

lemma operate_on_numbers_keeps:
  assumes "operate_on_numbers opcode args st = Some y"
  shows "chain_ordered st \<longrightarrow> count_covers st \<longrightarrow>
    chain_ordered (snd y) \<and> count_covers (snd y) \<and> tracepoint_count (snd y) = tracepoint_count st"
proof -
  let ?Q = "\<lambda>(opcode::tracepoint_opcode) (args::string) st (y::error option \<times> tracer).
    chain_ordered st \<longrightarrow> count_covers st \<longrightarrow>
    chain_ordered (snd y) \<and> count_covers (snd y) \<and> tracepoint_count (snd y) = tracepoint_count st"
  have step: "?Q opcode args st y"
    if IH: "\<And>opcode args st y. loop opcode args st = Some y \<Longrightarrow> ?Q opcode args st y"
    and body: "(if args = [] then Some (None, st)
      else case get_tracepoint_by_number st args of
           Inl e \<Rightarrow> Some (Some e, st)
         | Inr (t, rest) \<Rightarrow>
             loop opcode (dropWhile (\<lambda>c. c = CHR '' '' \<or> c = CHR 0x09) rest)
               (case t of Some i \<Rightarrow> tracepoint_operation i opcode st | None \<Rightarrow> st)) = Some y"
    for loop opcode args st y
  proof (intro impI)
    assume ord: "chain_ordered st" and cov: "count_covers st"
    show "chain_ordered (snd y) \<and> count_covers (snd y) \<and>
        tracepoint_count (snd y) = tracepoint_count st"
    proof (cases "args = []")
      case True
      with body ord cov show ?thesis by auto
    next
      case False
      show ?thesis
      proof (cases "get_tracepoint_by_number st args")
        case (Inl e)
        with False body ord cov show ?thesis by auto
      next
        case (Inr found)
        obtain t rest where found: "found = (t, rest)" by (cases found)
        let ?st = "case t of Some i \<Rightarrow> tracepoint_operation i opcode st | None \<Rightarrow> st"
        from False Inr found body
        have run: "loop opcode (dropWhile (\<lambda>c. c = CHR '' '' \<or> c = CHR 0x09) rest) ?st = Some y"
          by simp
        have ok: "chain_ordered ?st \<and> count_covers ?st \<and>
            tracepoint_count ?st = tracepoint_count st"
          using tracepoint_operation_ok [OF ord cov] ord cov by (cases t) simp_all
        from IH [OF run] ok show ?thesis by simp
      qed
    qed
  qed
  show ?thesis
    by (rule operate_on_numbers.raw_induct [where P = ?Q, OF step assms])
qed

lemma operate_on_numbers_ok:
  "operate_on_numbers opcode args st = Some (r, st') \<Longrightarrow>
   chain_ordered st \<Longrightarrow> count_covers st \<Longrightarrow>
   chain_ordered st' \<and> count_covers st' \<and> tracepoint_count st' = tracepoint_count st"
  using operate_on_numbers_keeps [of opcode args st "(r, st')"] by simp

lemma map_args_over_tracepoints_ok:
  assumes "map_args_over_tracepoints args opcode st = Some (r, st')"
    and "chain_ordered st" and "count_covers st"
  shows "chain_ordered st' \<and> count_covers st' \<and> tracepoint_count st' = tracepoint_count st"
proof (cases "args = None \<or> args = Some []")
  case True
  with assms(1) have "st' = snd (operate_on_all opcode 0 (length (tracepoint_chain st)) st)"
    by (auto simp add: map_args_over_tracepoints_def)
  with operate_on_all_ok [OF assms(2,3)] show ?thesis by simp
next
  case False
  then obtain c cs where "args = Some (c # cs)" by (cases args; cases "the args") auto
  with assms(1) have "operate_on_numbers opcode (c # cs) st = Some (r, st')"
    by (simp add: map_args_over_tracepoints_def)
  from operate_on_numbers_ok [OF this assms(2,3)] show ?thesis .
qed

lemma set_pass_counts_numbers: "map number (set_pass_counts t1 count chain) = map number chain"
proof -
  have "map number (set_pass_counts t1 count chain) =
      map (number \<circ> snd) (zip [0 ..< length chain] chain)"
    by (auto simp add: set_pass_counts_def)
  also have "\<dots> = map number (map snd (zip [0 ..< length chain] chain))"
    by (simp only: map_map)
  also have "map snd (zip [0 ..< length chain] chain) = chain"
    by (rule map_snd_zip) simp
  finally show ?thesis .
qed

lemma trace_pass_command_ok:
  assumes "chain_ordered st" and "count_covers st"
  shows "chain_ordered (snd (trace_pass_command args st)) \<and>
    count_covers (snd (trace_pass_command args st)) \<and>
    tracepoint_count (snd (trace_pass_command args st)) = tracepoint_count st"
proof -
  have "map number (tracepoint_chain (snd (trace_pass_command args st))) =
      map number (tracepoint_chain st) \<and>
    tracepoint_count (snd (trace_pass_command args st)) = tracepoint_count st"
    by (auto simp add: trace_pass_command_def Let_def set_pass_counts_numbers
        split: option.splits list.splits prod.splits sum.splits)
  with same_numbers [of "snd (trace_pass_command args st)" st] assms show ?thesis by simp
qed

lemma initial_tracer_ok: "chain_ordered initial_tracer \<and> count_covers initial_tracer"
  by (simp add: chain_ordered_def count_covers_def initial_tracer_def)


lemma create_tracepoints_new:
  "create_tracepoints cb addr canonical i sals st = (r, st') \<Longrightarrow>
   sint (tracepoint_count st) + int (length sals) < 2 ^ 31 \<Longrightarrow>
   \<exists>new. tracepoint_chain st' = tracepoint_chain st @ new \<and>
     (\<forall>t \<in> set new. sint (tracepoint_count st) < sint (number t))"
proof (induction sals arbitrary: i st)
  case Nil
  then show ?case by simp
next
  case (Cons sal sals)
  let ?c = "case canonical of None \<Rightarrow> None | Some cs \<Rightarrow> if i < length cs then cs ! i else None"
  show ?case
  proof (cases "create_tracepoint cb addr ?c sal st")
    case (Inl e)
    with Cons.prems show ?thesis by simp
  next
    case (Inr st1)
    from Cons.prems(2) have room: "sint (tracepoint_count st) < 2 ^ 31 - 1" by simp
    from create_tracepoint_chain [OF Inr] obtain t where
      chain: "tracepoint_chain st1 = tracepoint_chain st @ [t]" and
      num: "number t = tracepoint_count st + 1" and
      cnt: "tracepoint_count st1 = tracepoint_count st + 1" by blast
    from sint_succ [OF room]
    have up: "sint (tracepoint_count st + 1) = sint (tracepoint_count st) + 1" .
    from Inr Cons.prems(1)
    have run: "create_tracepoints cb addr canonical (i + 1) sals st1 = (r, st')" by simp
    from cnt up Cons.prems(2) have "sint (tracepoint_count st1) + int (length sals) < 2 ^ 31"
      by simp
    from Cons.IH [OF run this] obtain new where
      new: "tracepoint_chain st' = tracepoint_chain st1 @ new"
        "\<forall>t \<in> set new. sint (tracepoint_count st1) < sint (number t)" by blast
    from new chain num cnt up
    have "tracepoint_chain st' = tracepoint_chain st @ (t # new) \<and>
        (\<forall>t \<in> set (t # new). sint (tracepoint_count st) < sint (number t))"
      by auto
    then show ?thesis by blast
  qed
qed

lemma trace_command_new:
  assumes room: "sint (tracepoint_count st) + int (pending_locations cb arg) < 2 ^ 31"
  shows "\<exists>new. tracepoint_chain (snd (trace_command cb arg st)) = tracepoint_chain st @ new \<and>
    (\<forall>t \<in> set new. sint (tracepoint_count st) < sint (number t))"
proof (cases "\<exists>line sals canonical n. arg = Some line \<and> line \<noteq> [] \<and> hd line \<noteq> CHR ''/'' \<and>
    decode_line_1 cb line = Inr (sals, canonical, n)")
  case True
  then obtain line sals canonical n where arg: "arg = Some line" "line \<noteq> []" "hd line \<noteq> CHR ''/''"
    and dec: "decode_line_1 cb line = Inr (sals, canonical, n)" by blast
  from arg dec have tc: "trace_command cb arg st =
      create_tracepoints cb (take n line) canonical 0 sals st"
    by (cases line) (simp_all add: trace_command_def)
  from arg dec room have "sint (tracepoint_count st) + int (length sals) < 2 ^ 31"
    by (simp add: pending_locations_def)
  from create_tracepoints_new [OF _ this, of cb "take n line" canonical 0
      "fst (trace_command cb arg st)" "snd (trace_command cb arg st)"] tc
  show ?thesis by simp
next
  case False
  then have "snd (trace_command cb arg st) = st"
    by (auto simp add: trace_command_def split: option.splits list.splits sum.splits)
  then show ?thesis by simp
qed

lemma tracepoint_operation_numbers:
  "set (map number (tracepoint_chain (tracepoint_operation i opcode st))) \<subseteq>
   set (map number (tracepoint_chain st))"
proof (cases opcode)
  case enable
  have "map number (tracepoint_chain (tracepoint_operation i enable st)) =
      map number (tracepoint_chain st)"
    by (cases "i < length (tracepoint_chain st)")
      (simp_all add: tracepoint_operation_def map_update list_update_same_conv list_update_beyond)
  with enable show ?thesis by simp
next
  case disable
  have "map number (tracepoint_chain (tracepoint_operation i disable st)) =
      map number (tracepoint_chain st)"
    by (cases "i < length (tracepoint_chain st)")
      (simp_all add: tracepoint_operation_def map_update list_update_same_conv list_update_beyond)
  with disable show ?thesis by simp
next
  case delete
  have "set (take i (tracepoint_chain st) @ drop (Suc i) (tracepoint_chain st)) \<subseteq>
      set (tracepoint_chain st)"
    using set_take_subset [of i "tracepoint_chain st"]
      set_drop_subset [of "Suc i" "tracepoint_chain st"] by auto
  with delete show ?thesis by (auto simp add: tracepoint_operation_def)
qed

lemma operate_on_all_numbers:
  "set (map number (tracepoint_chain (snd (operate_on_all opcode i n st)))) \<subseteq>
   set (map number (tracepoint_chain st))"
proof (induction n arbitrary: i st)
  case 0
  show ?case by simp
next
  case (Suc n)
  show ?case
  proof (cases "opcode = delete")
    case True
    with tracepoint_operation_numbers [of i opcode st] show ?thesis by simp
  next
    case False
    with Suc.IH [of "i + 1" "tracepoint_operation i opcode st"]
      tracepoint_operation_numbers [of i opcode st]
    show ?thesis by (simp del: set_map)
  qed
qed

lemma operate_on_numbers_numbers:
  assumes "operate_on_numbers opcode args st = Some y"
  shows "set (map number (tracepoint_chain (snd y))) \<subseteq> set (map number (tracepoint_chain st))"
proof -
  let ?Q = "\<lambda>(opcode::tracepoint_opcode) (args::string) st (y::error option \<times> tracer).
    set (map number (tracepoint_chain (snd y))) \<subseteq> set (map number (tracepoint_chain st))"
  have step: "?Q opcode args st y"
    if IH: "\<And>opcode args st y. loop opcode args st = Some y \<Longrightarrow> ?Q opcode args st y"
    and body: "(if args = [] then Some (None, st)
      else case get_tracepoint_by_number st args of
           Inl e \<Rightarrow> Some (Some e, st)
         | Inr (t, rest) \<Rightarrow>
             loop opcode (dropWhile (\<lambda>c. c = CHR '' '' \<or> c = CHR 0x09) rest)
               (case t of Some i \<Rightarrow> tracepoint_operation i opcode st | None \<Rightarrow> st)) = Some y"
    for loop opcode args st y
  proof (cases "args = []")
    case True
    with body show ?thesis by auto
  next
    case False
    show ?thesis
    proof (cases "get_tracepoint_by_number st args")
      case (Inl e)
      with False body show ?thesis by auto
    next
      case (Inr found)
      obtain t rest where found: "found = (t, rest)" by (cases found)
      let ?st = "case t of Some i \<Rightarrow> tracepoint_operation i opcode st | None \<Rightarrow> st"
      from False Inr found body
      have run: "loop opcode (dropWhile (\<lambda>c. c = CHR '' '' \<or> c = CHR 0x09) rest) ?st = Some y"
        by simp
      have "set (map number (tracepoint_chain ?st)) \<subseteq> set (map number (tracepoint_chain st))"
        using tracepoint_operation_numbers [of _ opcode st] by (cases t) simp_all
      with IH [OF run] show ?thesis by blast
    qed
  qed
  show ?thesis
    by (rule operate_on_numbers.raw_induct [where P = ?Q, OF step assms])
qed

lemma map_args_over_tracepoints_numbers:
  assumes "map_args_over_tracepoints args opcode st = Some (r, st')"
  shows "set (map number (tracepoint_chain st')) \<subseteq> set (map number (tracepoint_chain st))"
proof (cases "args = None \<or> args = Some []")
  case True
  with assms have "st' = snd (operate_on_all opcode 0 (length (tracepoint_chain st)) st)"
    by (auto simp add: map_args_over_tracepoints_def)
  with operate_on_all_numbers [of opcode 0 "length (tracepoint_chain st)" st] show ?thesis
    by simp
next
  case False
  then obtain c cs where "args = Some (c # cs)" by (cases args; cases "the args") auto
  with assms have "operate_on_numbers opcode (c # cs) st = Some (r, st')"
    by (simp add: map_args_over_tracepoints_def)
  from operate_on_numbers_numbers [OF this] show ?thesis by simp
qed

lemma trace_pass_command_numbers:
  "map number (tracepoint_chain (snd (trace_pass_command args st))) =
   map number (tracepoint_chain st)"
  by (auto simp add: trace_pass_command_def Let_def set_pass_counts_numbers
      split: option.splits list.splits prod.splits sum.splits)


text \<open>
  Claim C7, amended.  The registry starts ordered, with the count above every number.
  From a registry in that state, \<^verbatim>\<open>trace\<close> keeps both and does not lower the count,
  and every tracepoint it appends to the chain has a number above the count it found,
  provided the count and the tracepoints it is about to make stay below \<open>2^31\<close>, the
  range of the \<^verbatim>\<open>int\<close> that counts them.  \<^verbatim>\<open>enable\<close>, \<^verbatim>\<open>disable\<close> and \<^verbatim>\<open>delete\<close>, when
  they return, and \<^verbatim>\<open>passcount\<close> keep both, leave the count as it is and bring no number
  into the chain that was not there.
\<close>

theorem registry_numbering:
  "chain_ordered initial_tracer \<and> count_covers initial_tracer \<and>
   (chain_ordered st \<and> count_covers st \<longrightarrow>
      (sint (tracepoint_count st) + int (pending_locations cb arg) < 2 ^ 31 \<longrightarrow>
         chain_ordered (snd (trace_command cb arg st)) \<and>
         count_covers (snd (trace_command cb arg st)) \<and>
         sint (tracepoint_count st) \<le> sint (tracepoint_count (snd (trace_command cb arg st))) \<and>
         (\<exists>new. tracepoint_chain (snd (trace_command cb arg st)) = tracepoint_chain st @ new \<and>
            (\<forall>t \<in> set new. sint (tracepoint_count st) < sint (number t)))) \<and>
      (\<forall>r st'. (enable_trace_command args st = Some (r, st') \<or>
                 disable_trace_command args st = Some (r, st') \<or>
                 delete_trace_command cb args st = Some (r, st')) \<and>
                r \<noteq> Some Use_After_Free \<longrightarrow>
         chain_ordered st' \<and> count_covers st' \<and> tracepoint_count st' = tracepoint_count st \<and>
         set (map number (tracepoint_chain st')) \<subseteq> set (map number (tracepoint_chain st))) \<and>
      chain_ordered (snd (trace_pass_command args st)) \<and>
      count_covers (snd (trace_pass_command args st)) \<and>
      tracepoint_count (snd (trace_pass_command args st)) = tracepoint_count st \<and>
      map number (tracepoint_chain (snd (trace_pass_command args st))) =
        map number (tracepoint_chain st))"
proof (intro conjI impI allI)
  show "chain_ordered initial_tracer" "count_covers initial_tracer"
    using initial_tracer_ok by simp_all
next
  assume ok: "chain_ordered st \<and> count_covers st"
    and room: "sint (tracepoint_count st) + int (pending_locations cb arg) < 2 ^ 31"
  from ok have ord: "chain_ordered st" and cov: "count_covers st" by simp_all
  from trace_command_ok [OF ord cov room]
  show "chain_ordered (snd (trace_command cb arg st))"
    "count_covers (snd (trace_command cb arg st))"
    "sint (tracepoint_count st) \<le> sint (tracepoint_count (snd (trace_command cb arg st)))"
    by simp_all
  from trace_command_new [OF room]
  show "\<exists>new. tracepoint_chain (snd (trace_command cb arg st)) = tracepoint_chain st @ new \<and>
      (\<forall>t \<in> set new. sint (tracepoint_count st) < sint (number t))" .
next
  fix r st'
  assume ok: "chain_ordered st \<and> count_covers st"
    and run: "(enable_trace_command args st = Some (r, st') \<or>
      disable_trace_command args st = Some (r, st') \<or>
      delete_trace_command cb args st = Some (r, st')) \<and> r \<noteq> Some Use_After_Free"
  from ok have ord: "chain_ordered st" and cov: "count_covers st" by simp_all
  from run have "st' = st \<or> (\<exists>opcode. map_args_over_tracepoints args opcode st = Some (r, st'))"
    by (auto simp add: enable_trace_command_def disable_trace_command_def
        delete_trace_command_def split: if_splits)
  with map_args_over_tracepoints_ok [OF _ ord cov] map_args_over_tracepoints_numbers ord cov
  have all: "chain_ordered st' \<and> count_covers st' \<and> tracepoint_count st' = tracepoint_count st \<and>
      set (map number (tracepoint_chain st')) \<subseteq> set (map number (tracepoint_chain st))"
    by blast
  from all show "chain_ordered st'" by simp
  from all show "count_covers st'" by simp
  from all show "tracepoint_count st' = tracepoint_count st" by simp
  from all show "set (map number (tracepoint_chain st')) \<subseteq> set (map number (tracepoint_chain st))"
    by blast
next
  assume ok: "chain_ordered st \<and> count_covers st"
  then have ord: "chain_ordered st" and cov: "count_covers st" by simp_all
  from trace_pass_command_ok [OF ord cov]
  show "chain_ordered (snd (trace_pass_command args st))"
    "count_covers (snd (trace_pass_command args st))"
    "tracepoint_count (snd (trace_pass_command args st)) = tracepoint_count st"
    by simp_all
  show "map number (tracepoint_chain (snd (trace_pass_command args st))) =
      map number (tracepoint_chain st)"
    by (rule trace_pass_command_numbers)
qed

lemma trace_main_step:
  "\<exists>t. tracepoint_chain (trace_main st) = tracepoint_chain st @ [t] \<and>
     number t = tracepoint_count st + 1 \<and>
     tracepoint_count (trace_main st) = tracepoint_count st + 1"
proof -
  let ?sal = "\<lparr>sal_symtab = None, sal_line = 0, sal_pc = (0x4010c0::core_addr)\<rparr>"
  obtain st1 where one: "create_tracepoint plain_host ''main'' None ?sal st = Inr st1"
    by (simp add: create_tracepoint_def set_raw_tracepoint_def Let_def)
  then have "trace_main st = st1"
    by (simp add: trace_main_def trace_command_def plain_host_def)
  with create_tracepoint_chain [OF one] show ?thesis by simp
qed

lemma operate_on_numbers_nil: "operate_on_numbers opcode [] st = Some (None, st)"
  by (subst operate_on_numbers.simps) simp

lemma operate_on_numbers_cons:
  "get_tracepoint_by_number st (c # cs) = Inr (t, rest) \<Longrightarrow>
   operate_on_numbers opcode (c # cs) st =
     operate_on_numbers opcode (dropWhile (\<lambda>c. c = CHR '' '' \<or> c = CHR 0x09) rest)
       (case t of Some i \<Rightarrow> tracepoint_operation i opcode st | None \<Rightarrow> st)"
  by (subst operate_on_numbers.simps) simp

lemma trace_main_tpnum:
  "internalvars (trace_main st) ''tpnum'' = Some (Int_Value (tracepoint_count st + 1))"
  by (simp add: trace_main_def trace_command_def plain_host_def create_tracepoint_def
      set_raw_tracepoint_def set_tracepoint_count_def set_internalvar_def Let_def)

lemma pending_main: "pending_locations plain_host (Some ''main'') = 1"
  by (simp add: pending_locations_def plain_host_def)

lemma traced_once_numbers:
  "\<exists>a. tracepoint_chain (trace_main initial_tracer) = [a] \<and> number a = 1 \<and>
     tracepoint_count (trace_main initial_tracer) = 1"
  using trace_main_step [of initial_tracer] by (simp add: initial_tracer_def)

lemma traced_twice_numbers:
  "\<exists>a b. tracepoint_chain traced_twice = [a, b] \<and> number a = 1 \<and> number b = 2 \<and>
     tracepoint_count traced_twice = 2"
proof -
  from traced_once_numbers obtain a where
    a: "tracepoint_chain (trace_main initial_tracer) = [a]" "number a = 1"
      "tracepoint_count (trace_main initial_tracer) = 1" by blast
  from trace_main_step [of "trace_main initial_tracer"] obtain b where
    b: "tracepoint_chain traced_twice = tracepoint_chain (trace_main initial_tracer) @ [b]"
      "number b = tracepoint_count (trace_main initial_tracer) + 1"
      "tracepoint_count traced_twice = tracepoint_count (trace_main initial_tracer) + 1"
    by (auto simp add: traced_twice_def)
  from a b have "tracepoint_chain traced_twice = [a, b] \<and> number a = 1 \<and> number b = 2 \<and>
      tracepoint_count traced_twice = 2" by simp
  then show ?thesis by blast
qed

lemma one_deleted_numbers:
  "delete_trace_command plain_host (Some ''2'') traced_twice = Some (None, one_deleted) \<and>
   (\<exists>a. tracepoint_chain one_deleted = [a] \<and> number a = 1) \<and>
   tracepoint_count one_deleted = 2"
proof -
  from traced_twice_numbers obtain a b where
    ab: "tracepoint_chain traced_twice = [a, b]" "number a = 1" "number b = 2"
      "tracepoint_count traced_twice = 2" by blast
  then have "get_tracepoint_by_number traced_twice ''2'' = Inr (Some (Suc 0), [])"
    by (simp add: get_tracepoint_by_number_def run_strings)
  from operate_on_numbers_cons [OF this, of delete]
  have "operate_on_numbers delete ''2'' traced_twice =
      Some (None, tracepoint_operation (Suc 0) delete traced_twice)"
    by (simp add: operate_on_numbers_nil)
  then have run: "delete_trace_command plain_host (Some ''2'') traced_twice =
      Some (None, tracepoint_operation (Suc 0) delete traced_twice)"
    by (simp add: delete_trace_command_def map_args_over_tracepoints_def)
  then have od: "one_deleted = tracepoint_operation (Suc 0) delete traced_twice"
    by (simp add: one_deleted_def delete_tracepoints_def)
  have "tracepoint_chain (tracepoint_operation (Suc 0) delete traced_twice) = [a] \<and>
      tracepoint_count (tracepoint_operation (Suc 0) delete traced_twice) = 2"
    using ab by (simp add: tracepoint_operation_def)
  then have "tracepoint_chain one_deleted = [a] \<and> tracepoint_count one_deleted = 2"
    by (simp only: od)
  moreover from run have "delete_trace_command plain_host (Some ''2'') traced_twice =
      Some (None, one_deleted)"
    by (simp only: od)
  ultimately show ?thesis using ab(2) by blast
qed

lemma traced_again_numbers:
  "\<exists>a c. tracepoint_chain traced_again = [a, c] \<and> number a = 1 \<and> number c = 3 \<and>
     tracepoint_count traced_again = 3"
proof -
  from one_deleted_numbers obtain a where
    a: "tracepoint_chain one_deleted = [a]" "number a = 1" "tracepoint_count one_deleted = 2"
    by blast
  from trace_main_step [of one_deleted] obtain c where
    c: "tracepoint_chain traced_again = tracepoint_chain one_deleted @ [c]"
      "number c = tracepoint_count one_deleted + 1"
      "tracepoint_count traced_again = tracepoint_count one_deleted + 1"
    by (auto simp add: traced_again_def)
  from a c have "tracepoint_chain traced_again = [a, c] \<and> number a = 1 \<and> number c = 3 \<and>
      tracepoint_count traced_again = 3" by simp
  then show ?thesis by blast
qed

text \<open>
  The short session: after two \<^verbatim>\<open>trace main\<close> the chain has the numbers 1 and 2; after
  \<^verbatim>\<open>delete tracepoints 2\<close> it has the number 1 and the count is still 2; the next
  \<^verbatim>\<open>trace main\<close> makes tracepoint 3, not 2 again.
\<close>

theorem registry_numbering_witness:
  "map number (tracepoint_chain traced_twice) = [1, 2] \<and> tracepoint_count traced_twice = 2 \<and>
   chain_ordered traced_twice \<and> count_covers traced_twice \<and>
   delete_trace_command plain_host (Some ''2'') traced_twice = Some (None, one_deleted) \<and>
   map number (tracepoint_chain one_deleted) = [1] \<and> tracepoint_count one_deleted = 2 \<and>
   chain_ordered one_deleted \<and> count_covers one_deleted \<and>
   sint (tracepoint_count one_deleted) + int (pending_locations plain_host (Some ''main''))
     < 2 ^ 31 \<and>
   traced_again = snd (trace_command plain_host (Some ''main'') one_deleted) \<and>
   map number (tracepoint_chain traced_again) = [1, 3] \<and> tracepoint_count traced_again = 3 \<and>
   chain_ordered traced_again \<and> count_covers traced_again"
proof -
  let ?s1 = "trace_main initial_tracer"
  have room0: "sint (tracepoint_count initial_tracer) +
      int (pending_locations plain_host (Some ''main'')) < 2 ^ 31"
    by (simp add: initial_tracer_def pending_main)
  from traced_once_numbers
  have room1: "sint (tracepoint_count ?s1) +
      int (pending_locations plain_host (Some ''main'')) < 2 ^ 31"
    by (auto simp add: pending_main)
  from one_deleted_numbers
  have room3: "sint (tracepoint_count one_deleted) +
      int (pending_locations plain_host (Some ''main'')) < 2 ^ 31"
    by (simp add: pending_main)
  have u1: "?s1 = snd (trace_command plain_host (Some ''main'') initial_tracer)"
    by (simp only: trace_main_def)
  have u2: "traced_twice = snd (trace_command plain_host (Some ''main'') ?s1)"
    by (simp only: traced_twice_def trace_main_def)
  have u4: "traced_again = snd (trace_command plain_host (Some ''main'') one_deleted)"
    by (simp only: traced_again_def trace_main_def)
  from registry_numbering [where st = initial_tracer and cb = plain_host
      and arg = "Some ''main''" and args = None] room0
  have "chain_ordered (snd (trace_command plain_host (Some ''main'') initial_tracer)) \<and>
      count_covers (snd (trace_command plain_host (Some ''main'') initial_tracer))"
    by blast
  then have ok1: "chain_ordered ?s1 \<and> count_covers ?s1" by (simp only: u1 [symmetric])
  from registry_numbering [where st = ?s1 and cb = plain_host
      and arg = "Some ''main''" and args = None] ok1 room1
  have "chain_ordered (snd (trace_command plain_host (Some ''main'') ?s1)) \<and>
      count_covers (snd (trace_command plain_host (Some ''main'') ?s1))"
    by blast
  then have ok2: "chain_ordered traced_twice \<and> count_covers traced_twice"
    by (simp only: u2 [symmetric])
  from one_deleted_numbers
  have gone: "delete_trace_command plain_host (Some ''2'') traced_twice = Some (None, one_deleted)"
    by blast
  have ret: "(None :: error option) \<noteq> Some Use_After_Free" by simp
  from registry_numbering [where st = traced_twice and cb = plain_host
      and arg = None and args = "Some ''2''"] ok2 gone ret
  have ok3: "chain_ordered one_deleted \<and> count_covers one_deleted" by blast
  from registry_numbering [where st = one_deleted and cb = plain_host
      and arg = "Some ''main''" and args = None] ok3 room3
  have "chain_ordered (snd (trace_command plain_host (Some ''main'') one_deleted)) \<and>
      count_covers (snd (trace_command plain_host (Some ''main'') one_deleted))"
    by blast
  then have ok4: "chain_ordered traced_again \<and> count_covers traced_again"
    by (simp only: u4 [symmetric])
  from traced_twice_numbers
  have n2: "map number (tracepoint_chain traced_twice) = [1, 2] \<and>
      tracepoint_count traced_twice = 2" by auto
  from one_deleted_numbers
  have n3: "map number (tracepoint_chain one_deleted) = [1] \<and> tracepoint_count one_deleted = 2"
    by auto
  from traced_again_numbers
  have n4: "map number (tracepoint_chain traced_again) = [1, 3] \<and>
      tracepoint_count traced_again = 3" by auto
  from n2 ok2 gone n3 ok3 room3 u4 n4 ok4 show ?thesis
    by (intro conjI) blast+
qed

lemma trace_and_delete_step:
  assumes "tracepoint_chain st = []"
  shows "tracepoint_chain (trace_and_delete st) = [] \<and>
    tracepoint_count (trace_and_delete st) = tracepoint_count st + 1"
proof -
  from trace_main_step [of st] assms obtain t where
    t: "tracepoint_chain (trace_main st) = [t]" "number t = tracepoint_count st + 1"
      "tracepoint_count (trace_main st) = tracepoint_count st + 1" by auto
  with trace_main_tpnum [of st]
  have "get_tracepoint_by_number (trace_main st) ''$tpnum'' = Inr (Some 0, [])"
    by (simp add: get_tracepoint_by_number_def isalnum_def digit_value_def tolower_def)
  from operate_on_numbers_cons [OF this, of delete]
  have "operate_on_numbers delete ''$tpnum'' (trace_main st) =
      Some (None, tracepoint_operation 0 delete (trace_main st))"
    by (simp add: operate_on_numbers_nil)
  then have "trace_and_delete st = tracepoint_operation 0 delete (trace_main st)"
    by (simp add: trace_and_delete_def delete_tracepoints_def delete_trace_command_def
        map_args_over_tracepoints_def)
  with t show ?thesis by (simp add: tracepoint_operation_def)
qed

lemma count_after_rounds:
  "tracepoint_chain ((trace_and_delete ^^ n) initial_tracer) = [] \<and>
   tracepoint_count ((trace_and_delete ^^ n) initial_tracer) = of_nat n"
proof (induction n)
  case 0
  show ?case by (simp add: initial_tracer_def)
next
  case (Suc n)
  with trace_and_delete_step [of "(trace_and_delete ^^ n) initial_tracer"] show ?case by simp
qed

text \<open>
  Claim C7 as it is stated fails once the count has run through the \<^verbatim>\<open>int\<close>.  In the
  long session a tracepoint has been made and deleted \<open>2^31 - 2\<close> times: the chain is
  empty, ordered and covered by the count.  Two commands \<^verbatim>\<open>trace main\<close> then make the
  tracepoints \<open>2^31 - 1\<close> and \<open>- 2^31\<close>, in that order in the chain, and the count
  has fallen.
\<close>

theorem registry_numbering_wraps:
  "chain_ordered count_run_up \<and> count_covers count_run_up \<and>
   \<not> chain_ordered (trace_main (trace_main count_run_up)) \<and>
   sint (tracepoint_count (trace_main (trace_main count_run_up))) <
     sint (tracepoint_count count_run_up)"
proof -
  from count_after_rounds [of 2147483646]
  have s: "tracepoint_chain count_run_up = []" "tracepoint_count count_run_up = 2147483646"
    by (simp_all add: count_run_up_def)
  from trace_main_step [of count_run_up] s obtain a where
    a: "tracepoint_chain (trace_main count_run_up) = [a]" "number a = 2147483647"
      "tracepoint_count (trace_main count_run_up) = 2147483647" by auto
  from trace_main_step [of "trace_main count_run_up"] a obtain b where
    b: "tracepoint_chain (trace_main (trace_main count_run_up)) = [a, b]"
      "number b = 2147483648"
      "tracepoint_count (trace_main (trace_main count_run_up)) = 2147483648" by auto
  from s have "chain_ordered count_run_up" "count_covers count_run_up"
    by (simp_all add: chain_ordered_def count_covers_def)
  moreover from a b have "\<not> chain_ordered (trace_main (trace_main count_run_up))"
    by (simp add: chain_ordered_def)
  moreover from s b have "sint (tracepoint_count (trace_main (trace_main count_run_up))) <
      sint (tracepoint_count count_run_up)"
    by simp
  ultimately show ?thesis by blast
qed


section \<open>Properties of the cursor\<close>

lemmas run_cursor = set_traceframe_context_def set_tracepoint_num_def set_traceframe_num_def
  set_internalvar_def context_cleared_def

lemma context_after_clear:
  "context_cleared (set_traceframe_context cb (- 1) st) \<and>
   traceframe_number (set_traceframe_context cb (- 1) st) = traceframe_number st"
  by (simp add: run_cursor)












section \<open>Properties of the action compiler\<close>

subsection \<open>The length of a number\<close>



lemma hex_of_nat_short: "0 < k \<Longrightarrow> n < 16 ^ k \<Longrightarrow> length (hex_of_nat d n) \<le> k"
proof (induction k arbitrary: n)
  case 0
  then show ?case by simp
next
  case (Suc k)
  show ?case
  proof (cases "n < 16")
    case True
    then show ?thesis by (simp add: hex_of_nat_small)
  next
    case False
    with Suc.prems have k: "0 < k" by (cases k) simp_all
    from Suc.prems have "n div 16 < 16 ^ k" by (simp add: less_mult_imp_div_less mult.commute)
    from Suc.IH [OF k this] False show ?thesis by (simp add: hex_of_nat_large)
  qed
qed

subsection \<open>The packets of \<open>tstart\<close>\<close>

lemma fmt_x_length: "length (fmt_x w) \<le> 8"
proof -
  have "unat w < 2 ^ 32" using unsigned_less [of w] by simp
  then have "unat w < 16 ^ 8" by simp
  with hex_of_nat_short [of 8 "unat w" lower_digit] show ?thesis by (simp add: fmt_x_def)
qed

lemma qtdp_header_length: "length (qtdp_header t) < sizeof_buf"
  using fmt_x_length [of "number t"] fmt_x_length [of "address t"]
    fmt_x_length [of "step_count t"] fmt_x_length [of "pass_count t"]
  by (simp add: qtdp_header_def sizeof_buf_def)

lemma qtdp_packet_with_actions:
  assumes "actions t \<noteq> []"
    and "encode_actions cb t = Inr ((tdp_actions, behind_tdp), (stepping_actions, behind_step))"
  shows "qtdp_packet cb t =
    (if sizeof_buf \<le> length (qtdp_body t tdp_actions stepping_actions)
     then Inl (Actions_Too_Complex (number t))
     else Inr (qtdp_body t tdp_actions stepping_actions))"
  using assms qtdp_header_length [of t]
  by (cases tdp_actions; cases stepping_actions)
    (auto simp add: qtdp_packet_def qtdp_body_def Let_def)

lemma qtdp_packet_short: "qtdp_packet cb t = Inr buf \<Longrightarrow> length buf < sizeof_buf"
proof (cases "actions t = []")
  case True
  assume "qtdp_packet cb t = Inr buf"
  with True qtdp_header_length [of t] show ?thesis by (simp add: qtdp_packet_def)
next
  case False
  assume run: "qtdp_packet cb t = Inr buf"
  with False obtain tdp behind_tdp stepping behind_step where
    enc: "encode_actions cb t = Inr ((tdp, behind_tdp), (stepping, behind_step))"
    by (cases "encode_actions cb t") (auto simp add: qtdp_packet_def)
  from qtdp_packet_with_actions [OF False enc] run show ?thesis
    by (auto split: if_splits)
qed

lemma noisy_reply_keeps:
  assumes "remote_get_noisy_reply cb st = (reply, st')"
  shows "sent st' = sent st \<and> tracepoint_chain st' = tracepoint_chain st \<and>
    tracepoint_count st' = tracepoint_count st"
  using assms by (auto simp add: remote_get_noisy_reply_def split: prod.splits)

lemma download_tracepoints_keeps:
  "download_tracepoints cb ts st = (r, st') \<Longrightarrow>
   tracepoint_chain st' = tracepoint_chain st \<and> tracepoint_count st' = tracepoint_count st \<and>
   (\<exists>new. sent st' = sent st @ new \<and> (r = None \<longrightarrow> length new = length ts) \<and>
      (\<forall>p \<in> set new. length p < sizeof_buf))"
proof (induction ts arbitrary: st)
  case Nil
  then show ?case by simp
next
  case (Cons t ts)
  show ?case
  proof (cases "qtdp_packet cb t")
    case (Inl e)
    with Cons.prems show ?thesis by auto
  next
    case (Inr buf)
    obtain reply st1 where noisy: "remote_get_noisy_reply cb (putpkt buf st) = (reply, st1)"
      by (cases "remote_get_noisy_reply cb (putpkt buf st)")
    from noisy_reply_keeps [OF noisy]
    have st1: "sent st1 = sent st @ [buf]" "tracepoint_chain st1 = tracepoint_chain st"
      "tracepoint_count st1 = tracepoint_count st"
      by (simp_all add: putpkt_def)
    from qtdp_packet_short [OF Inr] have short: "length buf < sizeof_buf" .
    show ?thesis
    proof (cases "reply = Inr ''OK''")
      case True
      with Inr noisy Cons.prems have "download_tracepoints cb ts st1 = (r, st')" by simp
      from Cons.IH [OF this] st1 short show ?thesis by auto
    next
      case False
      with Inr noisy Cons.prems have "st' = st1 \<and> r \<noteq> None"
        by (cases reply) (auto split: if_splits)
      with st1 short show ?thesis by auto
    qed
  qed
qed


lemma trace_start_command_keeps:
  assumes "trace_start_command cb st = (r, st')"
  shows "tracepoint_chain st' = tracepoint_chain st \<and>
    tracepoint_count st' = tracepoint_count st \<and>
    (\<exists>new. sent st' = sent st @ new \<and> (\<forall>p \<in> set new. length p < sizeof_buf))"
proof (cases "target_is_remote cb")
  case False
  with assms show ?thesis by (simp add: trace_start_command_def)
next
  case True
  obtain r1 st1 where n1: "remote_get_noisy_reply cb (putpkt ''QTinit'' st) = (r1, st1)"
    by (cases "remote_get_noisy_reply cb (putpkt ''QTinit'' st)")
  from noisy_reply_keeps [OF n1]
  have st1: "sent st1 = sent st @ [''QTinit'']" "tracepoint_chain st1 = tracepoint_chain st"
    "tracepoint_count st1 = tracepoint_count st"
    by (simp_all add: putpkt_def)
  show ?thesis
  proof (cases "r1 = Inr ''OK''")
    case False
    with True n1 assms have "st' = st1"
      by (cases r1) (auto simp add: trace_start_command_def split: if_splits)
    with st1 show ?thesis by (simp add: sizeof_buf_def)
  next
    case ok: True
    obtain r2 st2 where d: "download_tracepoints cb (tracepoint_chain st1) st1 = (r2, st2)"
      by (cases "download_tracepoints cb (tracepoint_chain st1) st1")
    from download_tracepoints_keeps [OF d] st1 obtain new where
      st2: "tracepoint_chain st2 = tracepoint_chain st" "tracepoint_count st2 = tracepoint_count st"
        "sent st2 = sent st @ ''QTinit'' # new"
        "\<forall>p \<in> set new. length p < sizeof_buf" by auto
    show ?thesis
    proof (cases r2)
      case (Some e)
      with True ok n1 d assms have "st' = st2" by (simp add: trace_start_command_def)
      with st2 show ?thesis by (simp add: sizeof_buf_def)
    next
      case None
      obtain r3 st3 where n3: "remote_get_noisy_reply cb (putpkt ''QTStart'' st2) = (r3, st3)"
        by (cases "remote_get_noisy_reply cb (putpkt ''QTStart'' st2)")
      from noisy_reply_keeps [OF n3] st2
      have st3: "sent st3 = sent st @ ''QTinit'' # new @ [''QTStart'']"
        "tracepoint_chain st3 = tracepoint_chain st" "tracepoint_count st3 = tracepoint_count st"
        by (simp_all add: putpkt_def)
      from True ok n1 d None n3 assms
      have "sent st' = sent st3 \<and> tracepoint_chain st' = tracepoint_chain st3 \<and>
          tracepoint_count st' = tracepoint_count st3"
        by (cases r3)
          (auto simp add: trace_start_command_def set_traceframe_context_def
            set_tracepoint_num_def set_traceframe_num_def set_internalvar_def split: if_splits)
      with st3 st2 show ?thesis by (simp add: sizeof_buf_def)
    qed
  qed
qed


subsection \<open>A tracepoint with 127 static arrays\<close>



















subsection \<open>Actions too complex\<close>


end
